theory Spec2Isabelle
  imports Main
begin

section \<open>Data model\<close>

text \<open>
  The note processor of \<^verbatim>\<open>yarn-project/aztec-rpc/src/note_processor/note_processor.ts\<close>.
  Field elements, addresses, keys and hashes are opaque to the processor: it only
  copies them, compares them and hands them to its collaborators, so each is a natural
  number here. A buffer is its list of bytes. Block numbers and leaf indices are
  unsigned 32-bit quantities in the ledger; their sums stay far below the range in
  which a JavaScript number is exact, so they are natural numbers.
\<close>

type_synonym Fr = nat
type_synonym AztecAddress = nat
type_synonym PublicKey = nat
type_synonym PrivateKey = nat
type_synonym Curve = nat
type_synonym TxHash = nat
type_synonym Buffer = "nat list"

record NoteSpendingInfo =
  contractAddress :: AztecAddress
  storageSlot :: Fr
  notePreimage :: "Fr list"

text \<open>\<^verbatim>\<open>NoteSpendingInfoDao\<close>: the note spending info with its nullifier, leaf index and owner.\<close>

record NoteSpendingInfoDao = NoteSpendingInfo +
  nullifier :: Fr
  index :: nat
  publicKey :: PublicKey

record TxDao =
  txHash :: TxHash
  blockHash :: Buffer
  blockNumber :: nat
  origin :: AztecAddress
  txContractAddress :: "AztecAddress option"
  error :: string

record ContractData =
  deployedAddress :: AztecAddress

record L2Tx =
  newContractData :: "ContractData list"

record AppendOnlyTreeSnapshot =
  nextAvailableLeafIndex :: nat

record L2Block =
  number :: nat
  startPrivateDataTreeSnapshot :: AppendOnlyTreeSnapshot
  newNullifiers :: "Fr list"
  blockTxs :: "L2Tx list"

record L2BlockContext =
  block :: L2Block
  txHashes :: "TxHash list"
  ctxBlockHash :: Buffer

record FunctionL2Logs =
  logs :: "Buffer list"

record TxL2Logs =
  functionLogs :: "FunctionL2Logs list"

record L2BlockL2Logs =
  txLogs :: "TxL2Logs list"

text \<open>\<^verbatim>\<open>ProcessedData\<close>: what the decryption loop hands to the batch insertion.\<close>

record ProcessedData =
  blockContext :: L2BlockContext
  userPertainingTxIndices :: "nat list"
  noteSpendingInfoDaos :: "NoteSpendingInfoDao list"

section \<open>Errors, collaborators and the record of their calls\<close>

datatype error =
  LengthMismatch nat nat
  | TypeError
  | KeyStoreError
  | CurveError
  | SimulatorError
  | DatabaseError
  | NodeError

text \<open>
  Every call the processor makes to a collaborator is recorded, in the order in which
  the calls are made, together with how it ended. Each call is awaited in the source,
  so an entry stands for a call that was issued and has completed.
\<close>

datatype Call =
  GetAccountPrivateKey PublicKey
  | GrumpkinNew
  | FromEncryptedBuffer Buffer
  | ComputeNullifier AztecAddress Fr "Fr list"
  | SiloNullifier AztecAddress Fr
  | AddNoteSpendingInfoBatch "NoteSpendingInfoDao list"
  | AddTxs "TxDao list"
  | RemoveNullifiedNoteSpendingInfo "Fr list" PublicKey
  | GetBlockHeight

datatype Outcome = Returned | Threw error

type_synonym Trace = "(Call \<times> Outcome) list"

text \<open>
  The key store, the curve, the decryption of a log, the simulator's nullifier
  computation, the siloing function and the node are not part of the processor: they
  are parameters. The ones that are awaited or may throw return a sum.
\<close>

record Collaborators =
  getAccountPrivateKey :: "PublicKey \<Rightarrow> error + PrivateKey"
  grumpkinNew :: "error + Curve"
  fromEncryptedBuffer :: "Buffer \<Rightarrow> PrivateKey \<Rightarrow> Curve \<Rightarrow> NoteSpendingInfo option"
  computeNullifier :: "AztecAddress \<Rightarrow> Fr \<Rightarrow> Fr list \<Rightarrow> error + Fr"
  siloNullifier :: "AztecAddress \<Rightarrow> Fr \<Rightarrow> Fr"
  getBlockHeight :: "error + nat"

text \<open>
  The \<^verbatim>\<open>Database\<close> interface: three operations on a store of type \<open>'db\<close>. Each
  returns the store it leaves behind, also when it throws.
\<close>

record 'db Database =
  addNoteSpendingInfoBatch :: "NoteSpendingInfoDao list \<Rightarrow> 'db \<Rightarrow> (error + unit) \<times> 'db"
  addTxs :: "TxDao list \<Rightarrow> 'db \<Rightarrow> (error + unit) \<times> 'db"
  removeNullifiedNoteSpendingInfo ::
    "Fr list \<Rightarrow> PublicKey \<Rightarrow> 'db \<Rightarrow> (error + NoteSpendingInfoDao list) \<times> 'db"

text \<open>The processor's own fields, the store it writes to and the calls made so far.\<close>

record 'db NoteProcessor =
  npPublicKey :: PublicKey
  npAddress :: AztecAddress
  syncedToBlock :: nat
  db :: 'db
  calls :: Trace

definition outcomeOf :: "error + 'a \<Rightarrow> Outcome" where
  "outcomeOf r = (case r of Inl e \<Rightarrow> Threw e | Inr _ \<Rightarrow> Returned)"

section \<open>Block context accessors\<close>

text \<open>
  Modelled from the spec: \<^verbatim>\<open>L2BlockContext.getTxHash\<close>, \<^verbatim>\<open>getBlockHash\<close> and
  \<^verbatim>\<open>L2Block.getTx\<close> are not among the sources. The spec's data model gives a block
  context a block hash, an ordered list of transaction hashes and an ordered list of
  per-transaction contract-deployment data; an index outside the lists yields nothing,
  which the caller's \<^verbatim>\<open>txHash!.toString()\<close> and \<^verbatim>\<open>newContractData[0].contractAddress\<close>
  turn into a \<^verbatim>\<open>TypeError\<close>.
\<close>

definition getTxHash :: "L2BlockContext \<Rightarrow> nat \<Rightarrow> TxHash option" where
  "getTxHash ctx txIndex =
     (if txIndex < length (txHashes ctx) then Some (txHashes ctx ! txIndex) else None)"

definition getBlockHash :: "L2BlockContext \<Rightarrow> Buffer" where
  "getBlockHash ctx = ctxBlockHash ctx"

definition getTx :: "L2Block \<Rightarrow> nat \<Rightarrow> L2Tx option" where
  "getTx b txIndex =
     (if txIndex < length (blockTxs b) then Some (blockTxs b ! txIndex) else None)"

section \<open>isSynchronised\<close>

definition isSynchronised ::
  "Collaborators \<Rightarrow> 'db NoteProcessor \<Rightarrow> (error + bool) \<times> 'db NoteProcessor" where
  "isSynchronised env np =
     (case getBlockHeight env of
        Inl e \<Rightarrow> (Inl e, np\<lparr>calls := calls np @ [(GetBlockHeight, Threw e)]\<rparr>)
      | Inr remoteBlockHeight \<Rightarrow>
          (Inr (syncedToBlock np = remoteBlockHeight),
           np\<lparr>calls := calls np @ [(GetBlockHeight, Returned)]\<rparr>))"

section \<open>The decryption loop of process\<close>

text \<open>A JavaScript \<^verbatim>\<open>Set\<close> keeps insertion order; \<^verbatim>\<open>add\<close> of a present element does nothing.\<close>

definition setAdd :: "nat \<Rightarrow> nat list \<Rightarrow> nat list" where
  "setAdd x xs = (if x \<in> set xs then xs else xs @ [x])"

definition computeSiloedNullifier ::
  "Collaborators \<Rightarrow> NoteSpendingInfo \<Rightarrow> Trace \<Rightarrow> (error + Fr) \<times> Trace" where
  "computeSiloedNullifier env nsi tr =
     (let c = ComputeNullifier (contractAddress nsi) (storageSlot nsi) (notePreimage nsi) in
      case computeNullifier env (contractAddress nsi) (storageSlot nsi) (notePreimage nsi) of
        Inl e \<Rightarrow> (Inl e, tr @ [(c, Threw e)])
      | Inr n \<Rightarrow>
          (Inr (siloNullifier env (contractAddress nsi) n),
           tr @ [(c, Returned), (SiloNullifier (contractAddress nsi) n, Returned)]))"

text \<open>
  The locals of one block's scan: \<^verbatim>\<open>logIndexWithinBlock\<close>, \<^verbatim>\<open>userPertainingTxIndices\<close>
  and \<^verbatim>\<open>noteSpendingInfoDaos\<close>.
\<close>

type_synonym Scan = "nat \<times> nat list \<times> NoteSpendingInfoDao list"

text \<open>The innermost loop, \<^verbatim>\<open>for (const logs of functionLogs.logs)\<close>.\<close>

fun scanLogs ::
  "Collaborators \<Rightarrow> PublicKey \<Rightarrow> PrivateKey \<Rightarrow> Curve \<Rightarrow> nat \<Rightarrow> nat \<Rightarrow> Buffer list \<Rightarrow>
   Scan \<Rightarrow> Trace \<Rightarrow> (error + Scan) \<times> Trace" where
  "scanLogs env pk privateKey curve dataStartIndexForBlock indexOfTxInABlock [] sc tr =
     (Inr sc, tr)"
| "scanLogs env pk privateKey curve dataStartIndexForBlock indexOfTxInABlock (buf # rest)
     (logIndexWithinBlock, pertaining, daos) tr =
     (let tr1 = tr @ [(FromEncryptedBuffer buf, Returned)] in
      case fromEncryptedBuffer env buf privateKey curve of
        None \<Rightarrow>
          scanLogs env pk privateKey curve dataStartIndexForBlock indexOfTxInABlock rest
            (logIndexWithinBlock + 1, pertaining, daos) tr1
      | Some noteSpendingInfo \<Rightarrow>
          (case computeSiloedNullifier env noteSpendingInfo tr1 of
             (Inl e, tr2) \<Rightarrow> (Inl e, tr2)
           | (Inr nf, tr2) \<Rightarrow>
               scanLogs env pk privateKey curve dataStartIndexForBlock indexOfTxInABlock rest
                 (logIndexWithinBlock + 1,
                  setAdd indexOfTxInABlock pertaining,
                  daos @ [\<lparr>contractAddress = contractAddress noteSpendingInfo,
                            storageSlot = storageSlot noteSpendingInfo,
                            notePreimage = notePreimage noteSpendingInfo,
                            nullifier = nf,
                            index = dataStartIndexForBlock + logIndexWithinBlock,
                            publicKey = pk\<rparr>])
                 tr2))"

text \<open>The middle loop, \<^verbatim>\<open>for (const functionLogs of txFunctionLogs)\<close>.\<close>

fun scanFunctionLogs ::
  "Collaborators \<Rightarrow> PublicKey \<Rightarrow> PrivateKey \<Rightarrow> Curve \<Rightarrow> nat \<Rightarrow> nat \<Rightarrow> FunctionL2Logs list \<Rightarrow>
   Scan \<Rightarrow> Trace \<Rightarrow> (error + Scan) \<times> Trace" where
  "scanFunctionLogs env pk privateKey curve dataStartIndexForBlock indexOfTxInABlock [] sc tr =
     (Inr sc, tr)"
| "scanFunctionLogs env pk privateKey curve dataStartIndexForBlock indexOfTxInABlock (fl # rest)
     sc tr =
     (case scanLogs env pk privateKey curve dataStartIndexForBlock indexOfTxInABlock (logs fl)
             sc tr of
        (Inl e, tr1) \<Rightarrow> (Inl e, tr1)
      | (Inr sc1, tr1) \<Rightarrow>
          scanFunctionLogs env pk privateKey curve dataStartIndexForBlock indexOfTxInABlock rest
            sc1 tr1)"

text \<open>
  The outer loop of one block, over \<^verbatim>\<open>indexOfTxInABlock\<close>; the list is what is left of
  \<^verbatim>\<open>txLogs\<close> from that index on.
\<close>

fun scanTxs ::
  "Collaborators \<Rightarrow> PublicKey \<Rightarrow> PrivateKey \<Rightarrow> Curve \<Rightarrow> nat \<Rightarrow> nat \<Rightarrow> TxL2Logs list \<Rightarrow>
   Scan \<Rightarrow> Trace \<Rightarrow> (error + Scan) \<times> Trace" where
  "scanTxs env pk privateKey curve dataStartIndexForBlock indexOfTxInABlock [] sc tr =
     (Inr sc, tr)"
| "scanTxs env pk privateKey curve dataStartIndexForBlock indexOfTxInABlock (t # rest) sc tr =
     (case scanFunctionLogs env pk privateKey curve dataStartIndexForBlock indexOfTxInABlock
             (functionLogs t) sc tr of
        (Inl e, tr1) \<Rightarrow> (Inl e, tr1)
      | (Inr sc1, tr1) \<Rightarrow>
          scanTxs env pk privateKey curve dataStartIndexForBlock (indexOfTxInABlock + 1) rest
            sc1 tr1)"

text \<open>The body of the loop over \<^verbatim>\<open>blockIndex\<close>: one block and its logs.\<close>

definition processBlock ::
  "Collaborators \<Rightarrow> PublicKey \<Rightarrow> L2BlockContext \<Rightarrow> L2BlockL2Logs \<Rightarrow> Trace \<Rightarrow>
   (error + ProcessedData) \<times> Trace" where
  "processBlock env pk ctx blockLogs tr =
     (let dataStartIndexForBlock =
            nextAvailableLeafIndex (startPrivateDataTreeSnapshot (block ctx)) in
      case getAccountPrivateKey env pk of
        Inl e \<Rightarrow> (Inl e, tr @ [(GetAccountPrivateKey pk, Threw e)])
      | Inr privateKey \<Rightarrow>
          (case grumpkinNew env of
             Inl e \<Rightarrow> (Inl e, tr @ [(GetAccountPrivateKey pk, Returned), (GrumpkinNew, Threw e)])
           | Inr curve \<Rightarrow>
               (case scanTxs env pk privateKey curve dataStartIndexForBlock 0 (txLogs blockLogs)
                       (0, [], [])
                       (tr @ [(GetAccountPrivateKey pk, Returned), (GrumpkinNew, Returned)]) of
                  (Inl e, tr1) \<Rightarrow> (Inl e, tr1)
                | (Inr (logIndexWithinBlock, pertaining, daos), tr1) \<Rightarrow>
                    (Inr \<lparr>blockContext = ctx,
                          userPertainingTxIndices = pertaining,
                          noteSpendingInfoDaos = daos\<rparr>, tr1))))"

text \<open>
  The loop over \<^verbatim>\<open>blockIndex\<close>. It runs over the encrypted logs and reads the block
  context at the same index; \<^verbatim>\<open>process\<close> has checked that the two arrays have the same
  length, so the loop runs over the pairs.
\<close>

fun processBlocks ::
  "Collaborators \<Rightarrow> PublicKey \<Rightarrow> (L2BlockContext \<times> L2BlockL2Logs) list \<Rightarrow> Trace \<Rightarrow>
   (error + ProcessedData list) \<times> Trace" where
  "processBlocks env pk [] tr = (Inr [], tr)"
| "processBlocks env pk ((ctx, blockLogs) # rest) tr =
     (case processBlock env pk ctx blockLogs tr of
        (Inl e, tr1) \<Rightarrow> (Inl e, tr1)
      | (Inr pd, tr1) \<Rightarrow>
          (case processBlocks env pk rest tr1 of
             (Inl e, tr2) \<Rightarrow> (Inl e, tr2)
           | (Inr pds, tr2) \<Rightarrow> (Inr (pd # pds), tr2)))"

section \<open>processBlocksAndNoteSpendingInfo\<close>

text \<open>
  The callback of \<^verbatim>\<open>userPertainingTxIndices.map((txIndex, j) => ...)\<close>: one record for
  the transaction \<open>txIndex\<close>, which stands at position \<open>j\<close> of the pertaining indices.
\<close>

definition txDaoOf ::
  "AztecAddress \<Rightarrow> L2BlockContext \<Rightarrow> NoteSpendingInfoDao list \<Rightarrow> nat \<Rightarrow> nat \<Rightarrow> error + TxDao" where
  "txDaoOf address ctx daos txIndex j =
     (case getTxHash ctx txIndex of
        None \<Rightarrow> Inl TypeError
      | Some h \<Rightarrow>
          (case getTx (block ctx) txIndex of
             None \<Rightarrow> Inl TypeError
           | Some tx \<Rightarrow>
               (case newContractData tx of
                  [] \<Rightarrow> Inl TypeError
                | cd # _ \<Rightarrow>
                    (let isContractDeployment = (deployedAddress cd \<noteq> 0) in
                     if isContractDeployment \<and> \<not> j < length daos then Inl TypeError
                     else
                       Inr \<lparr>txHash = h,
                            blockHash = getBlockHash ctx,
                            blockNumber = number (block ctx),
                            origin = address,
                            txContractAddress =
                              (if isContractDeployment then Some (contractAddress (daos ! j))
                               else None),
                            error = ''''\<rparr>))))"

fun blockTxDaos ::
  "AztecAddress \<Rightarrow> L2BlockContext \<Rightarrow> NoteSpendingInfoDao list \<Rightarrow> nat list \<Rightarrow> nat \<Rightarrow>
   error + TxDao list" where
  "blockTxDaos address ctx daos [] j = Inr []"
| "blockTxDaos address ctx daos (txIndex # rest) j =
     (case txDaoOf address ctx daos txIndex j of
        Inl e \<Rightarrow> Inl e
      | Inr t \<Rightarrow>
          (case blockTxDaos address ctx daos rest (j + 1) of
             Inl e \<Rightarrow> Inl e
           | Inr ts \<Rightarrow> Inr (t # ts)))"

text \<open>
  The loop over the processed blocks: it fills \<^verbatim>\<open>noteSpendingInfoDaosBatch\<close>,
  \<^verbatim>\<open>txDaos\<close> and \<^verbatim>\<open>newNullifiers\<close>, which it is given as they stand so far.
\<close>

fun accumulate ::
  "AztecAddress \<Rightarrow> ProcessedData list \<Rightarrow>
   NoteSpendingInfoDao list \<times> TxDao list \<times> Fr list \<Rightarrow>
   error + NoteSpendingInfoDao list \<times> TxDao list \<times> Fr list" where
  "accumulate address [] acc = Inr acc"
| "accumulate address (pd # rest) (batch, txDaos, nulls) =
     (case blockTxDaos address (blockContext pd) (noteSpendingInfoDaos pd)
             (userPertainingTxIndices pd) 0 of
        Inl e \<Rightarrow> Inl e
      | Inr ts \<Rightarrow>
          accumulate address rest
            (batch @ noteSpendingInfoDaos pd,
             txDaos @ ts,
             nulls @ newNullifiers (block (blockContext pd))))"

definition processBlocksAndNoteSpendingInfo ::
  "'db Database \<Rightarrow> 'db NoteProcessor \<Rightarrow> ProcessedData list \<Rightarrow>
   (error + unit) \<times> 'db NoteProcessor" where
  "processBlocksAndNoteSpendingInfo dbi np blocksAndNoteSpendingInfo =
     (case accumulate (npAddress np) blocksAndNoteSpendingInfo ([], [], []) of
        Inl e \<Rightarrow> (Inl e, np)
      | Inr (noteSpendingInfoDaosBatch, txDaos, nulls) \<Rightarrow>
          (case (if noteSpendingInfoDaosBatch \<noteq> [] then
                   (case addNoteSpendingInfoBatch dbi noteSpendingInfoDaosBatch (db np) of
                      (r, d) \<Rightarrow>
                        (r, np\<lparr>db := d,
                               calls := calls np @
                                 [(AddNoteSpendingInfoBatch noteSpendingInfoDaosBatch,
                                   outcomeOf r)]\<rparr>))
                 else (Inr (), np)) of
             (Inl e, np1) \<Rightarrow> (Inl e, np1)
           | (Inr _, np1) \<Rightarrow>
               (case (if txDaos \<noteq> [] then
                        (case addTxs dbi txDaos (db np1) of
                           (r, d) \<Rightarrow>
                             (r, np1\<lparr>db := d,
                                     calls := calls np1 @ [(AddTxs txDaos, outcomeOf r)]\<rparr>))
                      else (Inr (), np1)) of
                  (Inl e, np2) \<Rightarrow> (Inl e, np2)
                | (Inr _, np2) \<Rightarrow>
                    (case removeNullifiedNoteSpendingInfo dbi nulls (npPublicKey np2) (db np2) of
                       (r, d) \<Rightarrow>
                         (case r of
                            Inl e \<Rightarrow>
                              (Inl e,
                               np2\<lparr>db := d,
                                    calls := calls np2 @
                                      [(RemoveNullifiedNoteSpendingInfo nulls (npPublicKey np2),
                                        Threw e)]\<rparr>)
                          | Inr removedNoteSpendingInfo \<Rightarrow>
                              (Inr (),
                               np2\<lparr>db := d,
                                    calls := calls np2 @
                                      [(RemoveNullifiedNoteSpendingInfo nulls (npPublicKey np2),
                                        Returned)]\<rparr>))))))"

section \<open>process\<close>

definition process ::
  "Collaborators \<Rightarrow> 'db Database \<Rightarrow> 'db NoteProcessor \<Rightarrow> L2BlockContext list \<Rightarrow>
   L2BlockL2Logs list \<Rightarrow> (error + unit) \<times> 'db NoteProcessor" where
  "process env dbi np l2BlockContexts encryptedL2BlockLogs =
     (if length l2BlockContexts \<noteq> length encryptedL2BlockLogs then
        (Inl (LengthMismatch (length l2BlockContexts) (length encryptedL2BlockLogs)), np)
      else if l2BlockContexts = [] then (Inr (), np)
      else
        (case processBlocks env (npPublicKey np) (zip l2BlockContexts encryptedL2BlockLogs)
                (calls np) of
           (Inl e, tr) \<Rightarrow> (Inl e, np\<lparr>calls := tr\<rparr>)
         | (Inr blocksAndNoteSpendingInfo, tr) \<Rightarrow>
             (case processBlocksAndNoteSpendingInfo dbi (np\<lparr>calls := tr\<rparr>)
                     blocksAndNoteSpendingInfo of
                (Inl e, np1) \<Rightarrow> (Inl e, np1)
              | (Inr _, np1) \<Rightarrow>
                  (Inr (), np1\<lparr>syncedToBlock := number (block (last l2BlockContexts))\<rparr>))))"

section \<open>An in-memory store\<close>

text \<open>
  Modelled from the spec: the implementation of the \<^verbatim>\<open>Database\<close> interface is not among
  the sources. The spec's persistence store inserts a batch of notes, inserts a batch of
  transaction records (inserting a record that is already present must not duplicate
  it), and removes every stored note of the given owner whose nullifier is in the given
  list, returning exactly the notes it removed.
\<close>

record MemoryDB =
  noteSpendingInfoTable :: "NoteSpendingInfoDao list"
  txTable :: "TxDao list"

definition insertNew :: "'a list \<Rightarrow> 'a list \<Rightarrow> 'a list" where
  "insertNew table xs = foldl (\<lambda>t x. if x \<in> set t then t else t @ [x]) table xs"

definition memoryDB :: "MemoryDB Database" where
  "memoryDB =
     \<lparr>addNoteSpendingInfoBatch =
        (\<lambda>notes d.
           (Inr (), d\<lparr>noteSpendingInfoTable := insertNew (noteSpendingInfoTable d) notes\<rparr>)),
      addTxs = (\<lambda>txs d. (Inr (), d\<lparr>txTable := insertNew (txTable d) txs\<rparr>)),
      removeNullifiedNoteSpendingInfo =
        (\<lambda>nulls owner d.
           (Inr (filter (\<lambda>n. publicKey n = owner \<and> nullifier n \<in> set nulls)
                   (noteSpendingInfoTable d)),
            d\<lparr>noteSpendingInfoTable :=
                 filter (\<lambda>n. \<not> (publicKey n = owner \<and> nullifier n \<in> set nulls))
                   (noteSpendingInfoTable d)\<rparr>))\<rparr>"

section \<open>Vocabulary of the properties\<close>

text \<open>
  The raw log buffers of a block in the order in which the three nested loops visit
  them, each with the index of its transaction.
\<close>

definition nestedOrder :: "nat \<Rightarrow> TxL2Logs list \<Rightarrow> (nat \<times> Buffer) list" where
  "nestedOrder i ts =
     concat (map (\<lambda>(k, t). map (Pair k) (concat (map logs (functionLogs t)))) (enumerate i ts))"

text \<open>
  The buffers of such a list that decrypt, each with its position in the list (counted
  from \<open>c\<close>), the index of its transaction and the decrypted note spending info.
\<close>

definition hits ::
  "Collaborators \<Rightarrow> PrivateKey \<Rightarrow> Curve \<Rightarrow> nat \<Rightarrow> (nat \<times> Buffer) list \<Rightarrow>
   (nat \<times> nat \<times> NoteSpendingInfo) list" where
  "hits env privateKey curve c flat =
     List.map_filter
       (\<lambda>(i, (k, buf)). map_option (\<lambda>nsi. (i, k, nsi)) (fromEncryptedBuffer env buf privateKey curve))
       (enumerate c flat)"

text \<open>A stored note is the note of a hit: same payload, leaf index at the hit's position.\<close>

definition noteOf ::
  "Collaborators \<Rightarrow> PublicKey \<Rightarrow> nat \<Rightarrow> NoteSpendingInfoDao \<Rightarrow> nat \<times> nat \<times> NoteSpendingInfo \<Rightarrow> bool"
  where
  "noteOf env pk dataStartIndexForBlock d h =
     (case h of
        (i, k, nsi) \<Rightarrow>
          contractAddress d = contractAddress nsi \<and>
          storageSlot d = storageSlot nsi \<and>
          notePreimage d = notePreimage nsi \<and>
          index d = dataStartIndexForBlock + i \<and>
          publicKey d = pk \<and>
          fst (computeSiloedNullifier env nsi []) = Inr (nullifier d))"

definition isPersistence :: "Call \<Rightarrow> bool" where
  "isPersistence c =
     (case c of
        AddNoteSpendingInfoBatch _ \<Rightarrow> True
      | AddTxs _ \<Rightarrow> True
      | RemoveNullifiedNoteSpendingInfo _ _ \<Rightarrow> True
      | _ \<Rightarrow> False)"

text \<open>The calls a run of the processor added to the record of calls.\<close>

definition newCalls :: "'db NoteProcessor \<Rightarrow> 'db NoteProcessor \<Rightarrow> Trace" where
  "newCalls np np' = drop (length (calls np)) (calls np')"

definition errOf :: "error + 'a \<Rightarrow> error option" where
  "errOf r = (case r of Inl e \<Rightarrow> Some e | Inr _ \<Rightarrow> None)"

text \<open>
  \<open>tr'\<close> continues \<open>tr\<close> with calls none of which is a persistence call, and a call
  among them threw only if it threw the error \<open>eo\<close>.
\<close>

definition quietExt :: "Trace \<Rightarrow> Trace \<Rightarrow> error option \<Rightarrow> bool" where
  "quietExt tr tr' eo =
     (\<exists>ext. tr' = tr @ ext \<and> (\<forall>x\<in>set ext. \<not> isPersistence (fst x)) \<and>
        (\<forall>c e. (c, Threw e) \<in> set ext \<longrightarrow> eo = Some e))"

text \<open>The pertaining indices after adding the indices \<open>xs\<close>, one after the other.\<close>

definition addAll :: "nat list \<Rightarrow> nat list \<Rightarrow> nat list" where
  "addAll per xs = foldl (\<lambda>p x. setAdd x p) per xs"

text \<open>
  What a scan of the buffers \<open>flat\<close> makes of the locals: the counter has advanced by
  the number of buffers, the transaction indices of the hits have been added to the
  pertaining indices, and one note per hit has been appended, in the order of the hits.
\<close>

definition scanResult ::
  "Collaborators \<Rightarrow> PublicKey \<Rightarrow> PrivateKey \<Rightarrow> Curve \<Rightarrow> nat \<Rightarrow> (nat \<times> Buffer) list \<Rightarrow>
   Scan \<Rightarrow> Scan \<Rightarrow> bool" where
  "scanResult env pk privateKey curve dataStartIndexForBlock flat sc sc' =
     (case (sc, sc') of
        ((c, per, daos), (c', per', daos')) \<Rightarrow>
          c' = c + length flat \<and>
          per' = addAll per (map (fst \<circ> snd) (hits env privateKey curve c flat)) \<and>
          (\<exists>new. daos' = daos @ new \<and>
             list_all2 (noteOf env pk dataStartIndexForBlock) new
               (hits env privateKey curve c flat)))"

text \<open>The persistence calls among the calls a run added.\<close>

definition persistenceCalls :: "'db NoteProcessor \<Rightarrow> 'db NoteProcessor \<Rightarrow> Trace" where
  "persistenceCalls np np' = filter (\<lambda>x. isPersistence (fst x)) (newCalls np np')"

text \<open>
  The persistence calls of \<^verbatim>\<open>processBlocksAndNoteSpendingInfo\<close> in the order of its
  statements: the two insertions stand under a guard on the length of their batch.
\<close>

definition issued ::
  "NoteSpendingInfoDao list \<Rightarrow> TxDao list \<Rightarrow> Fr list \<Rightarrow> PublicKey \<Rightarrow> Call list" where
  "issued batch txDaos nulls pk =
     (if batch = [] then [] else [AddNoteSpendingInfoBatch batch]) @
     (if txDaos = [] then [] else [AddTxs txDaos]) @
     [RemoveNullifiedNoteSpendingInfo nulls pk]"

text \<open>
  What the loop of \<^verbatim>\<open>processBlocksAndNoteSpendingInfo\<close> accumulates for a batch, when
  the decryption loop and the accumulation both succeed.
\<close>

definition accumulated ::
  "Collaborators \<Rightarrow> 'db NoteProcessor \<Rightarrow> L2BlockContext list \<Rightarrow> L2BlockL2Logs list \<Rightarrow>
   (NoteSpendingInfoDao list \<times> TxDao list \<times> Fr list) option" where
  "accumulated env np l2BlockContexts encryptedL2BlockLogs =
     (case fst (processBlocks env (npPublicKey np) (zip l2BlockContexts encryptedL2BlockLogs)
                  (calls np)) of
        Inl e \<Rightarrow> None
      | Inr pds \<Rightarrow>
          (case accumulate (npAddress np) pds ([], [], []) of
             Inl e \<Rightarrow> None
           | Inr a \<Rightarrow> Some a))"

text \<open>The processor owns a note of the transaction \<open>txIndex\<close> of the block: one of its logs decrypts.\<close>

definition ownsNote ::
  "Collaborators \<Rightarrow> PrivateKey \<Rightarrow> Curve \<Rightarrow> L2BlockL2Logs \<Rightarrow> nat \<Rightarrow> bool" where
  "ownsNote env privateKey curve blockLogs txIndex =
     list_ex (\<lambda>(k, buf). k = txIndex \<and> fromEncryptedBuffer env buf privateKey curve \<noteq> None)
       (nestedOrder 0 (txLogs blockLogs))"

text \<open>
  The pertaining transaction indices of a block: the indices of the transactions that
  hold a log that decrypts, each once, in the order of their first such log.
\<close>

definition pertaining ::
  "Collaborators \<Rightarrow> PrivateKey \<Rightarrow> Curve \<Rightarrow> L2BlockL2Logs \<Rightarrow> nat list" where
  "pertaining env privateKey curve blockLogs =
     addAll []
       (map fst
          (filter (\<lambda>(k, buf). fromEncryptedBuffer env buf privateKey curve \<noteq> None)
             (nestedOrder 0 (txLogs blockLogs))))"

text \<open>
  The record \<open>t\<close> is a stored transaction for the transaction \<open>txIndex\<close> of the block:
  its origin is the processor's address, it carries the hash of that transaction and
  the hash and number of the block, its error is empty, and its contract address is set
  exactly when the first contract-deployment entry of the transaction is non-zero and
  the processor owns a note of that transaction.
\<close>

definition storedTxFor ::
  "Collaborators \<Rightarrow> PrivateKey \<Rightarrow> Curve \<Rightarrow> AztecAddress \<Rightarrow> L2BlockContext \<Rightarrow> L2BlockL2Logs \<Rightarrow>
   TxDao \<Rightarrow> nat \<Rightarrow> bool" where
  "storedTxFor env privateKey curve address ctx blockLogs t txIndex =
     (origin t = address \<and>
      getTxHash ctx txIndex = Some (txHash t) \<and>
      blockHash t = getBlockHash ctx \<and>
      blockNumber t = number (block ctx) \<and>
      error t = [] \<and>
      (case getTx (block ctx) txIndex of
         None \<Rightarrow> False
       | Some tx \<Rightarrow>
           (case newContractData tx of
              [] \<Rightarrow> False
            | cd # _ \<Rightarrow>
                (txContractAddress t \<noteq> None) =
                  (deployedAddress cd \<noteq> 0 \<and> ownsNote env privateKey curve blockLogs txIndex))))"

text \<open>
  The transaction records that a run handed to the store: the arguments of the
  insertions of transaction records that returned, in the order of the calls.
\<close>

definition insertedTxs :: "Trace \<Rightarrow> TxDao list" where
  "insertedTxs tr =
     concat (map (\<lambda>x. case x of (AddTxs txs, Returned) \<Rightarrow> txs | _ \<Rightarrow> []) tr)"

section \<open>A concrete scenario\<close>

text \<open>
  A key store that knows public key 1, a decryption that succeeds on the four-byte
  buffers that start with the private key, and two blocks: block 7 has one transaction
  with three logs of which the first and the third decrypt; block 8 reveals the
  nullifier of the first note of block 7.
\<close>

definition demoEnv :: Collaborators where
  "demoEnv =
     \<lparr>getAccountPrivateKey = (\<lambda>pk. if pk = 1 then Inr 11 else Inl KeyStoreError),
      grumpkinNew = Inr 0,
      fromEncryptedBuffer =
        (\<lambda>buf privateKey curve.
           case buf of
             [k, a, s, p] \<Rightarrow>
               if k = privateKey then
                 Some \<lparr>contractAddress = a, storageSlot = s, notePreimage = [p]\<rparr>
               else None
           | _ \<Rightarrow> None),
      computeNullifier =
        (\<lambda>a s pre. if a = 0 then Inl SimulatorError else Inr (s + sum_list pre)),
      siloNullifier = (\<lambda>a n. 1000 * a + n),
      getBlockHeight = Inr 5\<rparr>"

definition block7 :: L2BlockContext where
  "block7 =
     \<lparr>block = \<lparr>number = 7,
               startPrivateDataTreeSnapshot = \<lparr>nextAvailableLeafIndex = 100\<rparr>,
               newNullifiers = [],
               blockTxs = [\<lparr>newContractData = [\<lparr>deployedAddress = 0\<rparr>]\<rparr>]\<rparr>,
      txHashes = [70],
      ctxBlockHash = [7]\<rparr>"

definition logs7 :: L2BlockL2Logs where
  "logs7 =
     \<lparr>txLogs =
        [\<lparr>functionLogs = [\<lparr>logs = [[11, 5, 1, 40], [12, 5, 1, 41], [11, 5, 2, 42]]\<rparr>]\<rparr>]\<rparr>"

definition block8 :: L2BlockContext where
  "block8 =
     \<lparr>block = \<lparr>number = 8,
               startPrivateDataTreeSnapshot = \<lparr>nextAvailableLeafIndex = 103\<rparr>,
               newNullifiers = [5041],
               blockTxs = [\<lparr>newContractData = [\<lparr>deployedAddress = 0\<rparr>]\<rparr>]\<rparr>,
      txHashes = [80],
      ctxBlockHash = [8]\<rparr>"

definition logs8 :: L2BlockL2Logs where
  "logs8 = \<lparr>txLogs = [\<lparr>functionLogs = [\<lparr>logs = [[12, 5, 3, 43]]\<rparr>]\<rparr>]\<rparr>"

text \<open>
  Block 9: two transactions, both deploying a contract. The first holds two logs that
  decrypt (notes of contracts 5 and 6), the second holds one (a note of contract 7).
\<close>

definition block9 :: L2BlockContext where
  "block9 =
     \<lparr>block = \<lparr>number = 9,
               startPrivateDataTreeSnapshot = \<lparr>nextAvailableLeafIndex = 104\<rparr>,
               newNullifiers = [],
               blockTxs = [\<lparr>newContractData = [\<lparr>deployedAddress = 5\<rparr>]\<rparr>,
                           \<lparr>newContractData = [\<lparr>deployedAddress = 7\<rparr>]\<rparr>]\<rparr>,
      txHashes = [90, 91],
      ctxBlockHash = [9]\<rparr>"

definition logs9 :: L2BlockL2Logs where
  "logs9 =
     \<lparr>txLogs =
        [\<lparr>functionLogs = [\<lparr>logs = [[11, 5, 1, 50]]\<rparr>, \<lparr>logs = [[12, 5, 1, 51], [11, 6, 1, 52]]\<rparr>]\<rparr>,
         \<lparr>functionLogs = [\<lparr>logs = [[11, 7, 1, 53]]\<rparr>]\<rparr>]\<rparr>"

definition np0 :: "MemoryDB NoteProcessor" where
  "np0 =
     \<lparr>npPublicKey = 1, npAddress = 9, syncedToBlock = 0,
      db = \<lparr>noteSpendingInfoTable = [], txTable = []\<rparr>, calls = []\<rparr>"

text \<open>What the scan of block 7 hands on.\<close>

definition processed7 :: ProcessedData where
  "processed7 =
     \<lparr>blockContext = block7,
      userPertainingTxIndices = [0],
      noteSpendingInfoDaos =
        [\<lparr>contractAddress = 5, storageSlot = 1, notePreimage = [40],
          nullifier = 5041, index = 100, publicKey = 1\<rparr>,
         \<lparr>contractAddress = 5, storageSlot = 2, notePreimage = [42],
          nullifier = 5044, index = 102, publicKey = 1\<rparr>]\<rparr>"

text \<open>What the scan of block 9 hands on.\<close>

definition processed9 :: ProcessedData where
  "processed9 =
     \<lparr>blockContext = block9,
      userPertainingTxIndices = [0, 1],
      noteSpendingInfoDaos =
        [\<lparr>contractAddress = 5, storageSlot = 1, notePreimage = [50],
          nullifier = 5051, index = 104, publicKey = 1\<rparr>,
         \<lparr>contractAddress = 6, storageSlot = 1, notePreimage = [52],
          nullifier = 6053, index = 106, publicKey = 1\<rparr>,
         \<lparr>contractAddress = 7, storageSlot = 1, notePreimage = [53],
          nullifier = 7054, index = 107, publicKey = 1\<rparr>]\<rparr>"

text \<open>What the scan of block 8 hands on: none of its logs decrypts.\<close>

definition processed8 :: ProcessedData where
  "processed8 =
     \<lparr>blockContext = block8, userPertainingTxIndices = [], noteSpendingInfoDaos = []\<rparr>"

text \<open>The first note of block 7, whose nullifier block 8 reveals.\<close>

definition note40 :: NoteSpendingInfoDao where
  "note40 =
     \<lparr>contractAddress = 5, storageSlot = 1, notePreimage = [40],
      nullifier = 5041, index = 100, publicKey = 1\<rparr>"

text \<open>The transaction records that the processor builds for block 9.\<close>

definition tx90 :: TxDao where
  "tx90 =
     \<lparr>txHash = 90, blockHash = [9], blockNumber = 9, origin = 9,
      txContractAddress = Some 5, error = []\<rparr>"

definition tx91 :: TxDao where
  "tx91 =
     \<lparr>txHash = 91, blockHash = [9], blockNumber = 9, origin = 9,
      txContractAddress = Some 6, error = []\<rparr>"

text \<open>A store whose insertion of transaction records is rejected.\<close>

definition rejectingTxs :: "MemoryDB Database" where
  "rejectingTxs = memoryDB\<lparr>addTxs := (\<lambda>txs d. (Inl DatabaseError, d))\<rparr>"

section \<open>The calls of the decryption loop\<close>

text \<open>
  The decryption loop calls the key store, the curve, the decryption and the nullifier
  computation only; when one of these calls throws, the loop ends with that error.
\<close>

lemma errOf_simps [simp]: "errOf (Inl e) = Some e" "errOf (Inr v) = None"
  by (simp_all add: errOf_def)

lemma quietExt_refl [simp]: "quietExt tr tr eo"
  by (simp add: quietExt_def)

lemma quietExt_trans:
  "quietExt tr tr1 None \<Longrightarrow> quietExt tr1 tr2 eo \<Longrightarrow> quietExt tr tr2 eo"
  unfolding quietExt_def by (elim exE conjE) (rule_tac x = "ext @ exta" in exI, auto)

lemma quietExt_step:
  "\<not> isPersistence c \<Longrightarrow> quietExt (tr @ [(c, Returned)]) tr' eo \<Longrightarrow> quietExt tr tr' eo"
  unfolding quietExt_def by (elim exE conjE) (rule_tac x = "(c, Returned) # ext" in exI, auto)

lemma computeSiloedNullifier_trace:
  assumes "computeSiloedNullifier env nsi tr = (r, tr')"
  shows "quietExt tr tr' (errOf r)"
proof (cases "computeNullifier env (contractAddress nsi) (storageSlot nsi) (notePreimage nsi)")
  case (Inl e)
  with assms have "r = Inl e \<and> tr' = tr @ [(ComputeNullifier (contractAddress nsi) (storageSlot nsi) (notePreimage nsi), Threw e)]"
    by (auto simp: computeSiloedNullifier_def Let_def)
  then show ?thesis by (auto simp: quietExt_def isPersistence_def)
next
  case (Inr n)
  with assms have "errOf r = None \<and> tr' = tr @ [(ComputeNullifier (contractAddress nsi) (storageSlot nsi) (notePreimage nsi), Returned), (SiloNullifier (contractAddress nsi) n, Returned)]"
    by (auto simp: computeSiloedNullifier_def Let_def)
  then show ?thesis by (auto simp: quietExt_def isPersistence_def)
qed

lemma computeSiloedNullifier_fst:
  "fst (computeSiloedNullifier env nsi tr) = fst (computeSiloedNullifier env nsi [])"
  by (simp add: computeSiloedNullifier_def Let_def split: sum.splits)

lemma scanLogs_trace:
  "scanLogs env pk sk cv start txi bufs sc tr = (r, tr') \<Longrightarrow> quietExt tr tr' (errOf r)"
proof (induction env pk sk cv start txi bufs sc tr arbitrary: r tr' rule: scanLogs.induct)
  case (1 env pk sk cv start txi sc tr)
  then show ?case by auto
next
  case (2 env pk sk cv start txi buf rest c per daos tr)
  let ?tr1 = "tr @ [(FromEncryptedBuffer buf, Returned)]"
  show ?case
  proof (cases "fromEncryptedBuffer env buf sk cv")
    case None
    with 2 have "quietExt ?tr1 tr' (errOf r)" by simp
    then show ?thesis by (rule quietExt_step [rotated]) (simp add: isPersistence_def)
  next
    case (Some nsi)
    obtain rn tr2 where cn: "computeSiloedNullifier env nsi ?tr1 = (rn, tr2)"
      by (cases "computeSiloedNullifier env nsi ?tr1")
    have q1: "quietExt ?tr1 tr2 (errOf rn)" using cn by (rule computeSiloedNullifier_trace)
    have "quietExt ?tr1 tr' (errOf r)"
    proof (cases rn)
      case (Inl e)
      with 2 Some cn q1 show ?thesis by auto
    next
      case (Inr nf)
      with 2(2)[OF refl Some] 2(3) Some cn
      have "quietExt tr2 tr' (errOf r)" by (auto simp: Let_def)
      with q1 Inr show ?thesis by (auto intro: quietExt_trans)
    qed
    then show ?thesis by (rule quietExt_step [rotated]) (simp add: isPersistence_def)
  qed
qed

lemma scanFunctionLogs_trace:
  "scanFunctionLogs env pk sk cv start txi fls sc tr = (r, tr') \<Longrightarrow> quietExt tr tr' (errOf r)"
proof (induction fls arbitrary: sc tr)
  case Nil
  then show ?case by auto
next
  case (Cons fl rest)
  obtain r1 tr1 where s1: "scanLogs env pk sk cv start txi (logs fl) sc tr = (r1, tr1)"
    by (cases "scanLogs env pk sk cv start txi (logs fl) sc tr")
  have q1: "quietExt tr tr1 (errOf r1)" using s1 by (rule scanLogs_trace)
  show ?case
  proof (cases r1)
    case (Inl e)
    with Cons.prems s1 q1 show ?thesis by auto
  next
    case (Inr sc1)
    with Cons.prems s1 have "scanFunctionLogs env pk sk cv start txi rest sc1 tr1 = (r, tr')"
      by simp
    then have "quietExt tr1 tr' (errOf r)" by (rule Cons.IH)
    with q1 Inr show ?thesis by (auto intro: quietExt_trans)
  qed
qed

lemma scanTxs_trace:
  "scanTxs env pk sk cv start i ts sc tr = (r, tr') \<Longrightarrow> quietExt tr tr' (errOf r)"
proof (induction ts arbitrary: i sc tr)
  case Nil
  then show ?case by auto
next
  case (Cons t rest)
  obtain r1 tr1 where
    s1: "scanFunctionLogs env pk sk cv start i (functionLogs t) sc tr = (r1, tr1)"
    by (cases "scanFunctionLogs env pk sk cv start i (functionLogs t) sc tr")
  have q1: "quietExt tr tr1 (errOf r1)" using s1 by (rule scanFunctionLogs_trace)
  show ?case
  proof (cases r1)
    case (Inl e)
    with Cons.prems s1 q1 show ?thesis by auto
  next
    case (Inr sc1)
    with Cons.prems s1 have "scanTxs env pk sk cv start (i + 1) rest sc1 tr1 = (r, tr')"
      by simp
    then have "quietExt tr1 tr' (errOf r)" by (rule Cons.IH)
    with q1 Inr show ?thesis by (auto intro: quietExt_trans)
  qed
qed

lemma processBlock_trace:
  assumes "processBlock env pk ctx bl tr = (r, tr')"
  shows "quietExt tr tr' (errOf r)"
proof (cases "getAccountPrivateKey env pk")
  case (Inl e)
  with assms show ?thesis
    by (auto simp: processBlock_def quietExt_def isPersistence_def)
next
  case key: (Inr sk)
  show ?thesis
  proof (cases "grumpkinNew env")
    case (Inl e)
    with assms key show ?thesis
      by (auto simp: processBlock_def quietExt_def isPersistence_def)
  next
    case (Inr cv)
    let ?tr0 = "tr @ [(GetAccountPrivateKey pk, Returned), (GrumpkinNew, Returned)]"
    let ?start = "nextAvailableLeafIndex (startPrivateDataTreeSnapshot (block ctx))"
    obtain r1 tr1 where
      s1: "scanTxs env pk sk cv ?start 0 (txLogs bl) (0, [], []) ?tr0 = (r1, tr1)"
      by (cases "scanTxs env pk sk cv ?start 0 (txLogs bl) (0, [], []) ?tr0")
    have q1: "quietExt ?tr0 tr1 (errOf r1)" using s1 by (rule scanTxs_trace)
    have q0: "quietExt tr ?tr0 None"
      by (auto simp: quietExt_def isPersistence_def)
    from assms key Inr s1 have "tr' = tr1 \<and> errOf r = errOf r1"
      by (cases r1) (auto simp: processBlock_def Let_def split: prod.splits)
    with q0 q1 show ?thesis by (auto intro: quietExt_trans)
  qed
qed

lemma processBlocks_trace:
  "processBlocks env pk zs tr = (r, tr') \<Longrightarrow> quietExt tr tr' (errOf r)"
proof (induction zs arbitrary: tr r tr')
  case Nil
  then show ?case by auto
next
  case (Cons z rest)
  obtain ctx bl where z: "z = (ctx, bl)" by (cases z)
  obtain r1 tr1 where s1: "processBlock env pk ctx bl tr = (r1, tr1)"
    by (cases "processBlock env pk ctx bl tr")
  have q1: "quietExt tr tr1 (errOf r1)" using s1 by (rule processBlock_trace)
  show ?case
  proof (cases r1)
    case (Inl e)
    with Cons.prems s1 q1 z show ?thesis by auto
  next
    case (Inr pd)
    obtain r2 tr2 where s2: "processBlocks env pk rest tr1 = (r2, tr2)"
      by (cases "processBlocks env pk rest tr1")
    then have q2: "quietExt tr1 tr2 (errOf r2)" by (rule Cons.IH)
    from Cons.prems s1 s2 z Inr have "tr' = tr2 \<and> errOf r = errOf r2"
      by (cases r2) auto
    with q1 q2 Inr show ?thesis by (auto intro: quietExt_trans)
  qed
qed

section \<open>The result of the decryption loop\<close>

text \<open>
  The three nested loops visit the buffers of a block in the order of \<open>nestedOrder\<close>,
  with one counter for the whole block; a successful scan leaves one note per hit.
\<close>

lemma hits_Nil [simp]: "hits env sk cv c [] = []"
  by (simp add: hits_def)

lemma hits_Cons:
  "hits env sk cv c ((k, buf) # flat) =
     (case fromEncryptedBuffer env buf sk cv of
        None \<Rightarrow> hits env sk cv (Suc c) flat
      | Some nsi \<Rightarrow> (c, k, nsi) # hits env sk cv (Suc c) flat)"
  by (simp add: hits_def split: option.splits)

lemma hits_append:
  "hits env sk cv c (xs @ ys) = hits env sk cv c xs @ hits env sk cv (c + length xs) ys"
proof (induction xs arbitrary: c)
  case Nil
  then show ?case by simp
next
  case (Cons x xs)
  obtain k buf where x: "x = (k, buf)" by (cases x)
  show ?case
    by (simp add: x hits_Cons Cons.IH split: option.splits)
qed

lemma nestedOrder_Nil [simp]: "nestedOrder i [] = []"
  by (simp add: nestedOrder_def)

lemma nestedOrder_Cons:
  "nestedOrder i (t # ts) =
     map (Pair i) (concat (map logs (functionLogs t))) @ nestedOrder (Suc i) ts"
  by (simp add: nestedOrder_def)

lemma addAll_Nil [simp]: "addAll per [] = per"
  by (simp add: addAll_def)

lemma addAll_append: "addAll per (xs @ ys) = addAll (addAll per xs) ys"
  by (simp add: addAll_def)

lemma addAll_Cons: "addAll per (x # xs) = addAll (setAdd x per) xs"
  by (simp add: addAll_def)

lemma set_addAll: "set (addAll per xs) = set per \<union> set xs"
  by (induction xs arbitrary: per) (auto simp: addAll_Cons setAdd_def)

lemma distinct_addAll: "distinct per \<Longrightarrow> distinct (addAll per xs)"
  by (induction xs arbitrary: per) (auto simp: addAll_Cons setAdd_def)

lemma scanResult_Nil [simp]: "scanResult env pk sk cv start [] sc sc"
  by (cases sc) (simp add: scanResult_def)

lemma scanResult_append:
  assumes "scanResult env pk sk cv start flat1 sc sc1"
    and "scanResult env pk sk cv start flat2 sc1 sc2"
  shows "scanResult env pk sk cv start (flat1 @ flat2) sc sc2"
proof -
  obtain c per daos where sc: "sc = (c, per, daos)" by (cases sc)
  obtain c1 per1 daos1 where sc1: "sc1 = (c1, per1, daos1)" by (cases sc1)
  obtain c2 per2 daos2 where sc2: "sc2 = (c2, per2, daos2)" by (cases sc2)
  from assms(1) obtain new1 where
    a: "c1 = c + length flat1" "per1 = addAll per (map (fst \<circ> snd) (hits env sk cv c flat1))"
      "daos1 = daos @ new1" "list_all2 (noteOf env pk start) new1 (hits env sk cv c flat1)"
    by (auto simp: scanResult_def sc sc1)
  from assms(2) obtain new2 where
    b: "c2 = c1 + length flat2" "per2 = addAll per1 (map (fst \<circ> snd) (hits env sk cv c1 flat2))"
      "daos2 = daos1 @ new2" "list_all2 (noteOf env pk start) new2 (hits env sk cv c1 flat2)"
    by (auto simp: scanResult_def sc1 sc2)
  have "list_all2 (noteOf env pk start) (new1 @ new2) (hits env sk cv c (flat1 @ flat2))"
    using a b by (simp add: hits_append list_all2_appendI)
  moreover have "daos2 = daos @ (new1 @ new2)" using a b by simp
  ultimately have ex: "\<exists>new. daos2 = daos @ new \<and>
      list_all2 (noteOf env pk start) new (hits env sk cv c (flat1 @ flat2))"
    by blast
  have "c2 = c + length (flat1 @ flat2)" using a b by simp
  moreover have "per2 = addAll per (map (fst \<circ> snd) (hits env sk cv c (flat1 @ flat2)))"
    using a b by (simp add: hits_append addAll_append)
  ultimately show ?thesis
    using ex unfolding scanResult_def sc sc2 by simp
qed

lemma scanLogs_value:
  "scanLogs env pk sk cv start txi bufs sc tr = (Inr sc', tr') \<Longrightarrow>
   scanResult env pk sk cv start (map (Pair txi) bufs) sc sc'"
proof (induction bufs arbitrary: sc tr)
  case Nil
  then show ?case by simp
next
  case (Cons buf rest)
  obtain c per daos where sc: "sc = (c, per, daos)" by (cases sc)
  let ?tr1 = "tr @ [(FromEncryptedBuffer buf, Returned)]"
  show ?case
  proof (cases "fromEncryptedBuffer env buf sk cv")
    case None
    with Cons.prems sc
    have "scanLogs env pk sk cv start txi rest (c + 1, per, daos) ?tr1 = (Inr sc', tr')"
      by simp
    then have rest: "scanResult env pk sk cv start (map (Pair txi) rest) (c + 1, per, daos) sc'"
      by (rule Cons.IH)
    have "scanResult env pk sk cv start [(txi, buf)] sc (c + 1, per, daos)"
      by (simp add: scanResult_def sc hits_Cons None)
    from scanResult_append [OF this rest] show ?thesis by simp
  next
    case (Some nsi)
    obtain rn tr2 where cn: "computeSiloedNullifier env nsi ?tr1 = (rn, tr2)"
      by (cases "computeSiloedNullifier env nsi ?tr1")
    with Cons.prems sc Some obtain nf where nf: "rn = Inr nf"
      by (cases rn) auto
    let ?d = "\<lparr>contractAddress = contractAddress nsi, storageSlot = storageSlot nsi,
                notePreimage = notePreimage nsi, nullifier = nf, index = start + c,
                publicKey = pk\<rparr>"
    let ?sc1 = "(c + 1, setAdd txi per, daos @ [?d])"
    from Cons.prems sc Some cn nf
    have "scanLogs env pk sk cv start txi rest ?sc1 tr2 = (Inr sc', tr')"
      by simp
    then have rest: "scanResult env pk sk cv start (map (Pair txi) rest) ?sc1 sc'"
      by (rule Cons.IH)
    have "fst (computeSiloedNullifier env nsi []) = Inr nf"
      using cn nf computeSiloedNullifier_fst [of env nsi ?tr1] by simp
    then have "scanResult env pk sk cv start [(txi, buf)] sc ?sc1"
      by (simp add: scanResult_def sc hits_Cons Some noteOf_def addAll_Cons)
    from scanResult_append [OF this rest] show ?thesis by simp
  qed
qed

lemma scanFunctionLogs_value:
  "scanFunctionLogs env pk sk cv start txi fls sc tr = (Inr sc', tr') \<Longrightarrow>
   scanResult env pk sk cv start (map (Pair txi) (concat (map logs fls))) sc sc'"
proof (induction fls arbitrary: sc tr)
  case Nil
  then show ?case by simp
next
  case (Cons fl rest)
  obtain r1 tr1 where s1: "scanLogs env pk sk cv start txi (logs fl) sc tr = (r1, tr1)"
    by (cases "scanLogs env pk sk cv start txi (logs fl) sc tr")
  with Cons.prems obtain sc1 where r1: "r1 = Inr sc1" by (cases r1) auto
  from s1 r1 have a: "scanResult env pk sk cv start (map (Pair txi) (logs fl)) sc sc1"
    by (auto intro: scanLogs_value)
  from Cons.prems s1 r1
  have "scanFunctionLogs env pk sk cv start txi rest sc1 tr1 = (Inr sc', tr')" by simp
  then have "scanResult env pk sk cv start (map (Pair txi) (concat (map logs rest))) sc1 sc'"
    by (rule Cons.IH)
  from scanResult_append [OF a this] show ?case by simp
qed

lemma scanTxs_value:
  "scanTxs env pk sk cv start i ts sc tr = (Inr sc', tr') \<Longrightarrow>
   scanResult env pk sk cv start (nestedOrder i ts) sc sc'"
proof (induction ts arbitrary: i sc tr)
  case Nil
  then show ?case by simp
next
  case (Cons t rest)
  obtain r1 tr1 where
    s1: "scanFunctionLogs env pk sk cv start i (functionLogs t) sc tr = (r1, tr1)"
    by (cases "scanFunctionLogs env pk sk cv start i (functionLogs t) sc tr")
  with Cons.prems obtain sc1 where r1: "r1 = Inr sc1" by (cases r1) auto
  from s1 r1
  have a: "scanResult env pk sk cv start (map (Pair i) (concat (map logs (functionLogs t)))) sc sc1"
    by (auto intro: scanFunctionLogs_value)
  from Cons.prems s1 r1
  have "scanTxs env pk sk cv start (i + 1) rest sc1 tr1 = (Inr sc', tr')" by simp
  then have "scanResult env pk sk cv start (nestedOrder (i + 1) rest) sc1 sc'"
    by (rule Cons.IH)
  from scanResult_append [OF a this] show ?case by (simp add: nestedOrder_Cons)
qed

lemma processBlock_value:
  assumes "processBlock env pk ctx bl tr = (Inr pd, tr')"
    and "getAccountPrivateKey env pk = Inr sk"
    and "grumpkinNew env = Inr cv"
  shows "blockContext pd = ctx \<and>
         userPertainingTxIndices pd =
           addAll [] (map (fst \<circ> snd) (hits env sk cv 0 (nestedOrder 0 (txLogs bl)))) \<and>
         list_all2 (noteOf env pk (nextAvailableLeafIndex (startPrivateDataTreeSnapshot (block ctx))))
           (noteSpendingInfoDaos pd) (hits env sk cv 0 (nestedOrder 0 (txLogs bl)))"
proof -
  let ?tr0 = "tr @ [(GetAccountPrivateKey pk, Returned), (GrumpkinNew, Returned)]"
  let ?start = "nextAvailableLeafIndex (startPrivateDataTreeSnapshot (block ctx))"
  obtain r1 tr1 where
    s1: "scanTxs env pk sk cv ?start 0 (txLogs bl) (0, [], []) ?tr0 = (r1, tr1)"
    by (cases "scanTxs env pk sk cv ?start 0 (txLogs bl) (0, [], []) ?tr0")
  with assms obtain c per daos where r1: "r1 = Inr (c, per, daos)"
    by (cases r1) (auto simp: processBlock_def Let_def)
  from assms s1 r1 have pd: "pd = \<lparr>blockContext = ctx, userPertainingTxIndices = per,
      noteSpendingInfoDaos = daos\<rparr>"
    by (auto simp: processBlock_def Let_def)
  from s1 r1 have "scanResult env pk sk cv ?start (nestedOrder 0 (txLogs bl)) (0, [], []) (c, per, daos)"
    by (auto intro: scanTxs_value)
  then show ?thesis by (simp add: scanResult_def pd)
qed

lemma hits_positions:
  "map fst (hits env sk cv c flat) =
     map fst (filter (\<lambda>(i, k, buf). fromEncryptedBuffer env buf sk cv \<noteq> None) (enumerate c flat))"
proof (induction flat arbitrary: c)
  case Nil
  then show ?case by simp
next
  case (Cons x flat)
  obtain k buf where x: "x = (k, buf)" by (cases x)
  show ?case using Cons.IH [of "Suc c"]
    by (auto simp: x hits_Cons comp_def split: option.splits)
qed

lemma hits_txIndices:
  "map (fst \<circ> snd) (hits env sk cv c flat) =
     map fst (filter (\<lambda>(k, buf). fromEncryptedBuffer env buf sk cv \<noteq> None) flat)"
proof (induction flat arbitrary: c)
  case Nil
  then show ?case by simp
next
  case (Cons x flat)
  obtain k buf where x: "x = (k, buf)" by (cases x)
  show ?case using Cons.IH [of "Suc c"]
    by (auto simp: x hits_Cons comp_def split: option.splits)
qed

lemma hits_payloads:
  "map (snd \<circ> snd) (hits env sk cv c flat) =
     List.map_filter (\<lambda>(k, buf). fromEncryptedBuffer env buf sk cv) flat"
proof (induction flat arbitrary: c)
  case Nil
  then show ?case by simp
next
  case (Cons x flat)
  obtain k buf where x: "x = (k, buf)" by (cases x)
  show ?case using Cons.IH [of "Suc c"]
    by (auto simp: x hits_Cons comp_def split: option.splits)
qed

lemma notes_indices:
  "list_all2 (noteOf env pk start) daos H \<Longrightarrow> map index daos = map (\<lambda>h. start + fst h) H"
  by (induction rule: list_all2_induct) (auto simp: noteOf_def)

lemma notes_payloads:
  "list_all2 (noteOf env pk start) daos H \<Longrightarrow>
   map (\<lambda>d. \<lparr>contractAddress = contractAddress d, storageSlot = storageSlot d,
              notePreimage = notePreimage d\<rparr>) daos = map (snd \<circ> snd) H"
  by (induction rule: list_all2_induct) (auto simp: noteOf_def)

lemma notes_owner:
  "list_all2 (noteOf env pk start) daos H \<Longrightarrow> d \<in> set daos \<Longrightarrow> publicKey d = pk"
  by (induction rule: list_all2_induct) (auto simp: noteOf_def)

section \<open>The batch insertion\<close>

text \<open>
  The loop over the processed blocks concatenates the notes and the revealed nullifiers
  of the blocks; the persistence calls follow in the order of the statements, and a
  call that throws ends the function with its error.
\<close>

lemma accumulate_value:
  "accumulate address pds (batch, txs, nulls) = Inr (batch', txs', nulls') \<Longrightarrow>
   batch' = batch @ concat (map noteSpendingInfoDaos pds) \<and>
   nulls' = nulls @ concat (map (\<lambda>pd. newNullifiers (block (blockContext pd))) pds) \<and>
   (\<exists>tss. txs' = txs @ concat tss \<and>
      list_all2 (\<lambda>ts pd. blockTxDaos address (blockContext pd) (noteSpendingInfoDaos pd)
                            (userPertainingTxIndices pd) 0 = Inr ts) tss pds)"
proof (induction pds arbitrary: batch txs nulls)
  case Nil
  then show ?case by simp
next
  case (Cons pd rest)
  obtain ts where ts: "blockTxDaos address (blockContext pd) (noteSpendingInfoDaos pd)
      (userPertainingTxIndices pd) 0 = Inr ts"
    using Cons.prems
    by (cases "blockTxDaos address (blockContext pd) (noteSpendingInfoDaos pd)
      (userPertainingTxIndices pd) 0") auto
  with Cons.prems have "accumulate address rest
      (batch @ noteSpendingInfoDaos pd, txs @ ts, nulls @ newNullifiers (block (blockContext pd))) =
      Inr (batch', txs', nulls')" by simp
  from Cons.IH [OF this] obtain tss where
    a: "batch' = (batch @ noteSpendingInfoDaos pd) @ concat (map noteSpendingInfoDaos rest)"
      "nulls' = (nulls @ newNullifiers (block (blockContext pd))) @
         concat (map (\<lambda>pd. newNullifiers (block (blockContext pd))) rest)"
      "txs' = (txs @ ts) @ concat tss"
      "list_all2 (\<lambda>ts pd. blockTxDaos address (blockContext pd) (noteSpendingInfoDaos pd)
                            (userPertainingTxIndices pd) 0 = Inr ts) tss rest"
    by blast
  have "txs' = txs @ concat (ts # tss) \<and>
      list_all2 (\<lambda>ts pd. blockTxDaos address (blockContext pd) (noteSpendingInfoDaos pd)
                            (userPertainingTxIndices pd) 0 = Inr ts) (ts # tss) (pd # rest)"
    using a ts by simp
  then have "\<exists>tss. txs' = txs @ concat tss \<and>
      list_all2 (\<lambda>ts pd. blockTxDaos address (blockContext pd) (noteSpendingInfoDaos pd)
                            (userPertainingTxIndices pd) 0 = Inr ts) tss (pd # rest)"
    by blast
  with a show ?case by simp
qed

lemma pbansi_accumulate_fails:
  assumes "processBlocksAndNoteSpendingInfo dbi np pds = (r, np')"
    and "accumulate (npAddress np) pds ([], [], []) = Inl e"
  shows "r = Inl e \<and> np' = np"
  using assms by (simp add: processBlocksAndNoteSpendingInfo_def)

lemma pbansi_calls:
  assumes run: "processBlocksAndNoteSpendingInfo dbi np pds = (r, np')"
    and acc: "accumulate (npAddress np) pds ([], [], []) = Inr (batch, txDaos, nulls)"
  shows "\<exists>ext. calls np' = calls np @ ext \<and>
           (\<exists>rest. issued batch txDaos nulls (npPublicKey np) = map fst ext @ rest) \<and>
           (\<forall>c e. (c, Threw e) \<in> set ext \<longrightarrow> r = Inl e) \<and>
           (\<forall>x\<in>set (butlast ext). snd x = Returned) \<and>
           (errOf r = None \<longrightarrow>
              ext = map (\<lambda>c. (c, Returned)) (issued batch txDaos nulls (npPublicKey np)))"
proof -
  note defs = processBlocksAndNoteSpendingInfo_def issued_def outcomeOf_def
  obtain r1 d1 where n: "addNoteSpendingInfoBatch dbi batch (db np) = (r1, d1)"
    by (cases "addNoteSpendingInfoBatch dbi batch (db np)")
  show ?thesis
  proof (cases "batch = []")
    case noNotes: True
    show ?thesis
    proof (cases "txDaos = []")
      case True
      obtain r3 d3 where
        m: "removeNullifiedNoteSpendingInfo dbi nulls (npPublicKey np) (db np) = (r3, d3)"
        by (cases "removeNullifiedNoteSpendingInfo dbi nulls (npPublicKey np) (db np)")
      from run acc noNotes True m show ?thesis
        by (cases r3) (auto simp: defs)
    next
      case False
      obtain r2 d2 where t: "addTxs dbi txDaos (db np) = (r2, d2)"
        by (cases "addTxs dbi txDaos (db np)")
      obtain r3 d3 where
        m: "removeNullifiedNoteSpendingInfo dbi nulls (npPublicKey np) d2 = (r3, d3)"
        by (cases "removeNullifiedNoteSpendingInfo dbi nulls (npPublicKey np) d2")
      from run acc noNotes False t m show ?thesis
        by (cases r2; cases r3) (auto simp: defs)
    qed
  next
    case someNotes: False
    show ?thesis
    proof (cases r1)
      case (Inl e)
      with run acc someNotes n show ?thesis by (auto simp: defs)
    next
      case (Inr u)
      show ?thesis
      proof (cases "txDaos = []")
        case True
        obtain r3 d3 where
          m: "removeNullifiedNoteSpendingInfo dbi nulls (npPublicKey np) d1 = (r3, d3)"
          by (cases "removeNullifiedNoteSpendingInfo dbi nulls (npPublicKey np) d1")
        from run acc someNotes n Inr True m show ?thesis
          by (cases r3) (auto simp: defs)
      next
        case False
        obtain r2 d2 where t: "addTxs dbi txDaos d1 = (r2, d2)"
          by (cases "addTxs dbi txDaos d1")
        obtain r3 d3 where
          m: "removeNullifiedNoteSpendingInfo dbi nulls (npPublicKey np) d2 = (r3, d3)"
          by (cases "removeNullifiedNoteSpendingInfo dbi nulls (npPublicKey np) d2")
        from run acc someNotes n Inr False t m show ?thesis
          by (cases r2; cases r3) (auto simp: defs)
      qed
    qed
  qed
qed

section \<open>The shape of a run of process\<close>

text \<open>
  A run on a non-empty batch of matching lengths ends in one of three ways: the
  decryption loop fails, the accumulation fails, or the persistence calls are reached.
\<close>

lemma quietExt_no_persistence:
  "quietExt tr tr' eo \<Longrightarrow>
   \<exists>ext. tr' = tr @ ext \<and> filter (\<lambda>x. isPersistence (fst x)) ext = [] \<and>
     (\<forall>c e. (c, Threw e) \<in> set ext \<longrightarrow> eo = Some e)"
  unfolding quietExt_def by (auto simp: filter_empty_conv)

lemma issued_persistence: "c \<in> set (issued batch txDaos nulls pk) \<Longrightarrow> isPersistence c"
  by (auto simp: issued_def isPersistence_def split: if_splits)

lemma prefix_of_issued_persistence:
  assumes "issued batch txDaos nulls pk = map fst ext @ rest"
  shows "filter (\<lambda>x. isPersistence (fst x)) ext = ext"
proof -
  have "\<forall>x\<in>set ext. isPersistence (fst x)"
  proof
    fix x assume "x \<in> set ext"
    then have "fst x \<in> set (map fst ext @ rest)" by simp
    then show "isPersistence (fst x)"
      unfolding assms [symmetric] by (rule issued_persistence)
  qed
  then show ?thesis by simp
qed

lemma process_unfold:
  assumes "bs \<noteq> []" and "length bs = length ls"
    and "processBlocks env (npPublicKey np) (zip bs ls) (calls np) = (r1, tr)"
  shows "process env dbi np bs ls =
     (case r1 of
        Inl e \<Rightarrow> (Inl e, np\<lparr>calls := tr\<rparr>)
      | Inr pds \<Rightarrow>
          (case processBlocksAndNoteSpendingInfo dbi (np\<lparr>calls := tr\<rparr>) pds of
             (Inl e, np1) \<Rightarrow> (Inl e, np1)
           | (Inr _, np1) \<Rightarrow> (Inr (), np1\<lparr>syncedToBlock := number (block (last bs))\<rparr>)))"
  using assms by (cases r1) (simp_all add: process_def)

lemma process_run_a:
  assumes run: "process env dbi np bs ls = (r, np')"
    and ne: "bs \<noteq> []" and len: "length bs = length ls"
    and pb: "processBlocks env (npPublicKey np) (zip bs ls) (calls np) = (Inl e, tr)"
  shows "\<exists>ext. r = Inl e \<and> np' = np\<lparr>calls := calls np @ ext\<rparr> \<and>
            accumulated env np bs ls = None \<and>
            filter (\<lambda>x. isPersistence (fst x)) ext = [] \<and>
            (\<forall>c e'. (c, Threw e') \<in> set ext \<longrightarrow> e' = e)"
proof -
  from quietExt_no_persistence [OF processBlocks_trace [OF pb]] obtain ext1 where
    e1: "tr = calls np @ ext1" "filter (\<lambda>x. isPersistence (fst x)) ext1 = []"
      "\<forall>c e'. (c, Threw e') \<in> set ext1 \<longrightarrow> errOf (Inl e :: error + ProcessedData list) = Some e'"
    by blast
  from run process_unfold [OF ne len pb, of dbi]
  have "r = Inl e" "np' = np\<lparr>calls := tr\<rparr>"
    by simp_all
  moreover have "accumulated env np bs ls = None"
    using pb by (simp add: accumulated_def)
  moreover have "\<forall>c e'. (c, Threw e') \<in> set ext1 \<longrightarrow> e' = e"
    using e1(3) by simp
  ultimately have L: "r = Inl e \<and> np' = np\<lparr>calls := calls np @ ext1\<rparr> \<and>
      accumulated env np bs ls = None \<and>
      filter (\<lambda>x. isPersistence (fst x)) ext1 = [] \<and>
      (\<forall>c e'. (c, Threw e') \<in> set ext1 \<longrightarrow> e' = e)"
    using e1(1,2) by simp
  show ?thesis by (rule exI [of _ ext1], rule L)
qed

lemma process_run_b:
  assumes run: "process env dbi np bs ls = (r, np')"
    and ne: "bs \<noteq> []" and len: "length bs = length ls"
    and pb: "processBlocks env (npPublicKey np) (zip bs ls) (calls np) = (Inr pds, tr)"
    and accFail: "accumulate (npAddress np) pds ([], [], []) = Inl e"
  shows "\<exists>ext. r = Inl e \<and> np' = np\<lparr>calls := calls np @ ext\<rparr> \<and>
            accumulated env np bs ls = None \<and>
            filter (\<lambda>x. isPersistence (fst x)) ext = [] \<and>
            (\<forall>c e'. (c, Threw e') \<notin> set ext)"
proof -
  from quietExt_no_persistence [OF processBlocks_trace [OF pb]] obtain ext1 where
    e1: "tr = calls np @ ext1" "filter (\<lambda>x. isPersistence (fst x)) ext1 = []"
      "\<forall>c e'. (c, Threw e') \<in> set ext1 \<longrightarrow> errOf (Inr pds :: error + ProcessedData list) = Some e'"
    by blast
  then have noThrow: "\<forall>c e. (c, Threw e) \<notin> set ext1" by simp
  let ?np1 = "np\<lparr>calls := tr\<rparr>"
  obtain r2 np2 where pp: "processBlocksAndNoteSpendingInfo dbi ?np1 pds = (r2, np2)"
    by (cases "processBlocksAndNoteSpendingInfo dbi ?np1 pds")
  from accFail have "accumulate (npAddress ?np1) pds ([], [], []) = Inl e" by simp
  from pbansi_accumulate_fails [OF pp this] have r2: "r2 = Inl e" "np2 = ?np1" by simp_all
  from run process_unfold [OF ne len pb, of dbi] pp r2
  have "r = Inl e" "np' = np\<lparr>calls := tr\<rparr>"
    by simp_all
  moreover have "accumulated env np bs ls = None"
    using pb accFail by (simp add: accumulated_def)
  ultimately have L: "r = Inl e \<and> np' = np\<lparr>calls := calls np @ ext1\<rparr> \<and>
      accumulated env np bs ls = None \<and>
      filter (\<lambda>x. isPersistence (fst x)) ext1 = [] \<and>
      (\<forall>c e'. (c, Threw e') \<notin> set ext1)"
    using e1(1,2) noThrow by simp
  show ?thesis by (rule exI [of _ ext1], rule L)
qed

lemma process_run_c:
  assumes run: "process env dbi np bs ls = (r, np')"
    and ne: "bs \<noteq> []" and len: "length bs = length ls"
    and pb: "processBlocks env (npPublicKey np) (zip bs ls) (calls np) = (Inr pds, tr)"
    and accOk: "accumulate (npAddress np) pds ([], [], []) = Inr (batch, txDaos, nulls)"
  shows "\<exists>ext1 ext2.
            accumulated env np bs ls = Some (batch, txDaos, nulls) \<and>
            calls np' = calls np @ ext1 @ ext2 \<and>
            filter (\<lambda>x. isPersistence (fst x)) ext1 = [] \<and>
            (\<forall>c e. (c, Threw e) \<notin> set ext1) \<and>
            (\<exists>rest. issued batch txDaos nulls (npPublicKey np) = map fst ext2 @ rest) \<and>
            (\<forall>c e. (c, Threw e) \<in> set ext2 \<longrightarrow> r = Inl e) \<and>
            (\<forall>x\<in>set (butlast ext2). snd x = Returned) \<and>
            (errOf r = None \<longrightarrow>
               ext2 = map (\<lambda>c. (c, Returned)) (issued batch txDaos nulls (npPublicKey np)))"
proof -
  from quietExt_no_persistence [OF processBlocks_trace [OF pb]] obtain ext1 where
    e1: "tr = calls np @ ext1" "filter (\<lambda>x. isPersistence (fst x)) ext1 = []"
      "\<forall>c e'. (c, Threw e') \<in> set ext1 \<longrightarrow> errOf (Inr pds :: error + ProcessedData list) = Some e'"
    by blast
  then have noThrow: "\<forall>c e. (c, Threw e) \<notin> set ext1" by simp
  let ?np1 = "np\<lparr>calls := tr\<rparr>"
  obtain r2 np2 where pp: "processBlocksAndNoteSpendingInfo dbi ?np1 pds = (r2, np2)"
    by (cases "processBlocksAndNoteSpendingInfo dbi ?np1 pds")
  have "accumulate (npAddress ?np1) pds ([], [], []) = Inr (batch, txDaos, nulls)"
    using accOk by simp
  from pbansi_calls [OF pp this] have "\<exists>ext. calls np2 = tr @ ext \<and>
       (\<exists>rest. issued batch txDaos nulls (npPublicKey np) = map fst ext @ rest) \<and>
       (\<forall>c e. (c, Threw e) \<in> set ext \<longrightarrow> r2 = Inl e) \<and>
       (\<forall>x\<in>set (butlast ext). snd x = Returned) \<and>
       (errOf r2 = None \<longrightarrow>
          ext = map (\<lambda>c. (c, Returned)) (issued batch txDaos nulls (npPublicKey np)))"
    by simp
  then obtain ext2 where e2c: "calls np2 = tr @ ext2 \<and>
       (\<exists>rest. issued batch txDaos nulls (npPublicKey np) = map fst ext2 @ rest) \<and>
       (\<forall>c e. (c, Threw e) \<in> set ext2 \<longrightarrow> r2 = Inl e) \<and>
       (\<forall>x\<in>set (butlast ext2). snd x = Returned) \<and>
       (errOf r2 = None \<longrightarrow>
          ext2 = map (\<lambda>c. (c, Returned)) (issued batch txDaos nulls (npPublicKey np)))" ..
  note e2 = e2c [THEN conjunct1] e2c [THEN conjunct2, THEN conjunct1]
    e2c [THEN conjunct2, THEN conjunct2, THEN conjunct1]
    e2c [THEN conjunct2, THEN conjunct2, THEN conjunct2, THEN conjunct1]
    e2c [THEN conjunct2, THEN conjunct2, THEN conjunct2, THEN conjunct2]
  have pu: "process env dbi np bs ls =
      (case r2 of Inl e \<Rightarrow> (Inl e, np2)
       | Inr u \<Rightarrow> (Inr (), np2\<lparr>syncedToBlock := number (block (last bs))\<rparr>))"
    using process_unfold [OF ne len pb, of dbi] pp by simp
  have rr: "calls np' = calls np2 \<and> errOf r = errOf r2 \<and> (\<forall>e. r2 = Inl e \<longrightarrow> r = Inl e)"
  proof (cases r2)
    case (Inl e)
    with pu run have "r = Inl e" "np' = np2" by simp_all
    with Inl show ?thesis by simp
  next
    case (Inr u)
    with pu run have "r = Inr ()" "np' = np2\<lparr>syncedToBlock := number (block (last bs))\<rparr>"
      by simp_all
    with Inr show ?thesis by simp
  qed
  have acc: "accumulated env np bs ls = Some (batch, txDaos, nulls)"
    using pb accOk by (simp add: accumulated_def)
  have c: "calls np' = calls np @ ext1 @ ext2" using rr e2(1) e1(1) by simp
  have t: "\<forall>c e. (c, Threw e) \<in> set ext2 \<longrightarrow> r = Inl e"
    using e2(3) rr by blast
  have s: "errOf r = None \<longrightarrow>
      ext2 = map (\<lambda>c. (c, Returned)) (issued batch txDaos nulls (npPublicKey np))"
    using e2(5) rr by simp
  have R: "accumulated env np bs ls = Some (batch, txDaos, nulls) \<and>
      calls np' = calls np @ ext1 @ ext2 \<and>
      filter (\<lambda>x. isPersistence (fst x)) ext1 = [] \<and>
      (\<forall>c e. (c, Threw e) \<notin> set ext1) \<and>
      (\<exists>rest. issued batch txDaos nulls (npPublicKey np) = map fst ext2 @ rest) \<and>
      (\<forall>c e. (c, Threw e) \<in> set ext2 \<longrightarrow> r = Inl e) \<and>
      (\<forall>x\<in>set (butlast ext2). snd x = Returned) \<and>
      (errOf r = None \<longrightarrow>
         ext2 = map (\<lambda>c. (c, Returned)) (issued batch txDaos nulls (npPublicKey np)))"
    using acc c e1(2) noThrow e2(2) t e2(4) s by (intro conjI)
  show ?thesis
    by (rule exI [of _ ext1], rule exI [of _ ext2], rule R)
qed

lemma newCalls_append: "calls np' = calls np @ ext \<Longrightarrow> newCalls np np' = ext"
  by (simp add: newCalls_def)

lemma newCalls_same [simp]: "newCalls np np = []"
  by (simp add: newCalls_def)

lemma persistenceCalls_same [simp]: "persistenceCalls np np = []"
  by (simp add: persistenceCalls_def)

lemma processBlocks_key_fails:
  assumes "zs \<noteq> []" and "getAccountPrivateKey env pk = Inl e"
  shows "fst (processBlocks env pk zs tr) = Inl e"
proof -
  from assms(1) obtain ctx bl rest where zs: "zs = (ctx, bl) # rest"
    by (cases zs) auto
  have "fst (processBlock env pk ctx bl tr) = Inl e"
    using assms(2) by (simp add: processBlock_def)
  then show ?thesis
    unfolding zs by (cases "processBlock env pk ctx bl tr") simp
qed

lemma process_thrown:
  assumes run: "process env dbi np bs ls = (r, np')"
    and thrown: "(c, Threw e) \<in> set (newCalls np np')"
  shows "r = Inl e"
proof (cases "bs \<noteq> [] \<and> length bs = length ls")
  case False
  with run have "np' = np" by (auto simp: process_def split: if_splits)
  with thrown show ?thesis by simp
next
  case True
  then have ne: "bs \<noteq> []" and len: "length bs = length ls" by simp_all
  obtain r1 tr where pb:
    "processBlocks env (npPublicKey np) (zip bs ls) (calls np) = (r1, tr)"
    by (cases "processBlocks env (npPublicKey np) (zip bs ls) (calls np)")
  show ?thesis
  proof (cases r1)
    case (Inl e1)
    from process_run_a [OF run ne len pb [unfolded Inl]] obtain ext where
      x: "r = Inl e1" "np' = np\<lparr>calls := calls np @ ext\<rparr>"
        "\<forall>c e'. (c, Threw e') \<in> set ext \<longrightarrow> e' = e1"
      by blast
    from x(2) have "newCalls np np' = ext" by (simp add: newCalls_def)
    with thrown x(1,3) show ?thesis by blast
  next
    case (Inr pds)
    show ?thesis
    proof (cases "accumulate (npAddress np) pds ([], [], [])")
      case accFail: (Inl e1)
      from process_run_b [OF run ne len pb [unfolded Inr] accFail] obtain ext where
        x: "np' = np\<lparr>calls := calls np @ ext\<rparr>" "\<forall>c e'. (c, Threw e') \<notin> set ext"
        by blast
      from x(1) have "newCalls np np' = ext" by (simp add: newCalls_def)
      with thrown x(2) show ?thesis by simp
    next
      case accOk: (Inr a)
      obtain batch txDaos nulls where a: "a = (batch, txDaos, nulls)" by (cases a)
      from process_run_c [OF run ne len pb [unfolded Inr] accOk [unfolded a]]
      obtain ext1 ext2 where
        x: "calls np' = calls np @ ext1 @ ext2" "\<forall>c e. (c, Threw e) \<notin> set ext1"
          "\<forall>c e. (c, Threw e) \<in> set ext2 \<longrightarrow> r = Inl e"
        by blast
      from x(1) have "newCalls np np' = ext1 @ ext2" by (simp add: newCalls_def)
      with thrown x(2,3) show ?thesis by auto
    qed
  qed
qed

lemma persistenceCalls_append:
  "calls np' = calls np @ ext \<Longrightarrow>
   persistenceCalls np np' = filter (\<lambda>x. isPersistence (fst x)) ext"
  by (simp add: persistenceCalls_def newCalls_def)

lemma process_persistence_none:
  assumes run: "process env dbi np bs ls = (r, np')"
    and none: "accumulated env np bs ls = None"
  shows "persistenceCalls np np' = []"
proof (cases "bs \<noteq> [] \<and> length bs = length ls")
  case False
  with run have "np' = np" by (auto simp: process_def split: if_splits)
  then show ?thesis by simp
next
  case True
  then have ne: "bs \<noteq> []" and len: "length bs = length ls" by simp_all
  obtain r1 tr where pb:
    "processBlocks env (npPublicKey np) (zip bs ls) (calls np) = (r1, tr)"
    by (cases "processBlocks env (npPublicKey np) (zip bs ls) (calls np)")
  show ?thesis
  proof (cases r1)
    case (Inl e1)
    from process_run_a [OF run ne len pb [unfolded Inl]] obtain ext where
      x: "np' = np\<lparr>calls := calls np @ ext\<rparr>" "filter (\<lambda>x. isPersistence (fst x)) ext = []"
      by blast
    from x(1) have "calls np' = calls np @ ext" by simp
    from persistenceCalls_append [OF this] x(2) show ?thesis by simp
  next
    case (Inr pds)
    show ?thesis
    proof (cases "accumulate (npAddress np) pds ([], [], [])")
      case accFail: (Inl e1)
      from process_run_b [OF run ne len pb [unfolded Inr] accFail] obtain ext where
        x: "np' = np\<lparr>calls := calls np @ ext\<rparr>" "filter (\<lambda>x. isPersistence (fst x)) ext = []"
        by blast
      from x(1) have "calls np' = calls np @ ext" by simp
      from persistenceCalls_append [OF this] x(2) show ?thesis by simp
    next
      case accOk: (Inr a)
      with pb Inr none show ?thesis by (simp add: accumulated_def)
    qed
  qed
qed

lemma process_persistence_some:
  assumes run: "process env dbi np bs ls = (r, np')"
    and ne: "bs \<noteq> []" and len: "length bs = length ls"
    and some: "accumulated env np bs ls = Some (batch, txDaos, nulls)"
  shows "(\<exists>rest. issued batch txDaos nulls (npPublicKey np) =
            map fst (persistenceCalls np np') @ rest) \<and>
         (\<forall>x\<in>set (butlast (persistenceCalls np np')). snd x = Returned) \<and>
         (errOf r = None \<longrightarrow>
            persistenceCalls np np' =
              map (\<lambda>c. (c, Returned)) (issued batch txDaos nulls (npPublicKey np)))"
proof -
  obtain r1 tr where pb:
    "processBlocks env (npPublicKey np) (zip bs ls) (calls np) = (r1, tr)"
    by (cases "processBlocks env (npPublicKey np) (zip bs ls) (calls np)")
  from some pb obtain pds where r1: "r1 = Inr pds"
    by (cases r1) (simp_all add: accumulated_def)
  from some pb r1 have acc: "accumulate (npAddress np) pds ([], [], []) = Inr (batch, txDaos, nulls)"
    by (cases "accumulate (npAddress np) pds ([], [], [])") (simp_all add: accumulated_def)
  from process_run_c [OF run ne len pb [unfolded r1] acc] obtain ext1 where
    "\<exists>ext2. accumulated env np bs ls = Some (batch, txDaos, nulls) \<and>
        calls np' = calls np @ ext1 @ ext2 \<and>
        filter (\<lambda>x. isPersistence (fst x)) ext1 = [] \<and>
        (\<forall>c e. (c, Threw e) \<notin> set ext1) \<and>
        (\<exists>rest. issued batch txDaos nulls (npPublicKey np) = map fst ext2 @ rest) \<and>
        (\<forall>c e. (c, Threw e) \<in> set ext2 \<longrightarrow> r = Inl e) \<and>
        (\<forall>x\<in>set (butlast ext2). snd x = Returned) \<and>
        (errOf r = None \<longrightarrow>
           ext2 = map (\<lambda>c. (c, Returned)) (issued batch txDaos nulls (npPublicKey np)))" ..
  then obtain ext2 where
    y: "accumulated env np bs ls = Some (batch, txDaos, nulls) \<and>
        calls np' = calls np @ ext1 @ ext2 \<and>
        filter (\<lambda>x. isPersistence (fst x)) ext1 = [] \<and>
        (\<forall>c e. (c, Threw e) \<notin> set ext1) \<and>
        (\<exists>rest. issued batch txDaos nulls (npPublicKey np) = map fst ext2 @ rest) \<and>
        (\<forall>c e. (c, Threw e) \<in> set ext2 \<longrightarrow> r = Inl e) \<and>
        (\<forall>x\<in>set (butlast ext2). snd x = Returned) \<and>
        (errOf r = None \<longrightarrow>
           ext2 = map (\<lambda>c. (c, Returned)) (issued batch txDaos nulls (npPublicKey np)))" ..
  have x1: "calls np' = calls np @ ext1 @ ext2" using y by (elim conjE)
  have x2: "filter (\<lambda>x. isPersistence (fst x)) ext1 = []" using y by (elim conjE)
  have x3: "\<exists>rest. issued batch txDaos nulls (npPublicKey np) = map fst ext2 @ rest"
    using y by (elim conjE)
  have x4: "\<forall>x\<in>set (butlast ext2). snd x = Returned" using y by (elim conjE)
  have x5: "errOf r = None \<longrightarrow>
      ext2 = map (\<lambda>c. (c, Returned)) (issued batch txDaos nulls (npPublicKey np))"
    using y by (elim conjE)
  from x3 obtain rest where
    rest: "issued batch txDaos nulls (npPublicKey np) = map fst ext2 @ rest" ..
  have "persistenceCalls np np' = filter (\<lambda>x. isPersistence (fst x)) (ext1 @ ext2)"
    using x1 by (intro persistenceCalls_append) simp
  also have "\<dots> = ext2"
    using x2 prefix_of_issued_persistence [OF rest] by simp
  finally have pc: "persistenceCalls np np' = ext2" .
  from x3 x4 x5 show ?thesis unfolding pc by (intro conjI)
qed

section \<open>The in-memory store and the notes of a batch\<close>

lemma set_insertNew: "set (insertNew table xs) = set table \<union> set xs"
  unfolding insertNew_def by (induction xs arbitrary: table) auto

lemma insertNew_Nil [simp]: "insertNew table [] = table"
  by (simp add: insertNew_def)

lemma pbansi_memory:
  assumes "processBlocksAndNoteSpendingInfo memoryDB np pds = (r, np')"
    and "accumulate (npAddress np) pds ([], [], []) = Inr (batch, txDaos, nulls)"
  shows "r = Inr () \<and>
         noteSpendingInfoTable (db np') =
           filter (\<lambda>n. \<not> (publicKey n = npPublicKey np \<and> nullifier n \<in> set nulls))
             (insertNew (noteSpendingInfoTable (db np)) batch)"
  using assms
  by (cases "batch = []"; cases "txDaos = []")
    (auto simp: processBlocksAndNoteSpendingInfo_def memoryDB_def outcomeOf_def)

lemma processBlock_keys:
  "processBlock env pk ctx bl tr = (Inr pd, tr') \<Longrightarrow>
   \<exists>sk cv. getAccountPrivateKey env pk = Inr sk \<and> grumpkinNew env = Inr cv"
  by (cases "getAccountPrivateKey env pk"; cases "grumpkinNew env")
    (auto simp: processBlock_def)

lemma processBlocks_value:
  "processBlocks env pk zs tr = (Inr pds, tr') \<Longrightarrow>
   list_all2 (\<lambda>pd z. \<exists>tr0 tr1. processBlock env pk (fst z) (snd z) tr0 = (Inr pd, tr1)) pds zs"
proof (induction zs arbitrary: pds tr tr')
  case Nil
  then show ?case by simp
next
  case (Cons z rest)
  obtain ctx bl where z: "z = (ctx, bl)" by (cases z)
  obtain r1 tr1 where s1: "processBlock env pk ctx bl tr = (r1, tr1)"
    by (cases "processBlock env pk ctx bl tr")
  with Cons.prems z obtain pd where r1: "r1 = Inr pd" by (cases r1) auto
  obtain r2 tr2 where s2: "processBlocks env pk rest tr1 = (r2, tr2)"
    by (cases "processBlocks env pk rest tr1")
  with Cons.prems z s1 r1 obtain pds' where r2: "r2 = Inr pds'" by (cases r2) auto
  from Cons.prems z s1 r1 s2 r2 have pds: "pds = pd # pds'" by simp
  from s2 r2 have "list_all2 (\<lambda>pd z. \<exists>tr0 tr1. processBlock env pk (fst z) (snd z) tr0 = (Inr pd, tr1)) pds' rest"
    by (auto intro: Cons.IH)
  moreover have "\<exists>tr0 tr1. processBlock env pk (fst z) (snd z) tr0 = (Inr pd, tr1)"
    using s1 r1 z by auto
  ultimately show ?case unfolding pds by simp
qed

lemma processBlock_owner:
  assumes "processBlock env pk ctx bl tr = (Inr pd, tr')"
  shows "blockContext pd = ctx \<and> (\<forall>d\<in>set (noteSpendingInfoDaos pd). publicKey d = pk)"
proof -
  from processBlock_keys [OF assms] obtain sk cv where
    k: "getAccountPrivateKey env pk = Inr sk" "grumpkinNew env = Inr cv" by blast
  from processBlock_value [OF assms k] show ?thesis
    by (auto dest: notes_owner)
qed

lemma processBlocks_owner:
  assumes "processBlocks env pk zs tr = (Inr pds, tr')"
  shows "map blockContext pds = map fst zs \<and>
         (\<forall>d\<in>set (concat (map noteSpendingInfoDaos pds)). publicKey d = pk)"
  using processBlocks_value [OF assms]
  by (induction rule: list_all2_induct) (auto dest: processBlock_owner)

section \<open>The transaction records of a block\<close>

lemma distinct_pertaining: "distinct (pertaining env sk cv bl)"
  unfolding pertaining_def by (rule distinct_addAll) simp

lemma set_pertaining: "txIndex \<in> set (pertaining env sk cv bl) \<longleftrightarrow> ownsNote env sk cv bl txIndex"
  by (force simp: pertaining_def ownsNote_def set_addAll list_ex_iff image_iff)

lemma txDaoOf_stored:
  assumes "txDaoOf address ctx daos txIndex j = Inr t"
    and "ownsNote env sk cv bl txIndex"
  shows "storedTxFor env sk cv address ctx bl t txIndex"
proof -
  from assms(1) obtain h where h: "getTxHash ctx txIndex = Some h"
    by (cases "getTxHash ctx txIndex") (auto simp: txDaoOf_def)
  from assms(1) h obtain tx where tx: "getTx (block ctx) txIndex = Some tx"
    by (cases "getTx (block ctx) txIndex") (auto simp: txDaoOf_def)
  from assms(1) h tx obtain cd cds where cd: "newContractData tx = cd # cds"
    by (cases "newContractData tx") (auto simp: txDaoOf_def)
  from assms h tx cd show ?thesis
    by (auto simp: txDaoOf_def storedTxFor_def Let_def split: if_splits)
qed

lemma blockTxDaos_value:
  "blockTxDaos address ctx daos per j = Inr ts \<Longrightarrow>
   list_all2 (\<lambda>t txIndex. \<exists>m. txDaoOf address ctx daos txIndex m = Inr t) ts per"
proof (induction per arbitrary: j ts)
  case Nil
  then show ?case by simp
next
  case (Cons txIndex rest)
  from Cons.prems obtain t where t: "txDaoOf address ctx daos txIndex j = Inr t"
    by (cases "txDaoOf address ctx daos txIndex j") auto
  with Cons.prems obtain ts' where ts': "blockTxDaos address ctx daos rest (j + 1) = Inr ts'"
    by (cases "blockTxDaos address ctx daos rest (j + 1)") auto
  from Cons.prems t ts' have "ts = t # ts'" by simp
  moreover from ts' have "list_all2 (\<lambda>t txIndex. \<exists>m. txDaoOf address ctx daos txIndex m = Inr t) ts' rest"
    by (rule Cons.IH)
  ultimately show ?case using t by auto
qed

lemma block_stored_txs:
  assumes pb: "processBlock env pk ctx bl tr0 = (Inr pd, tr1)"
    and key: "getAccountPrivateKey env pk = Inr sk"
    and curve: "grumpkinNew env = Inr cv"
    and ts: "blockTxDaos address (blockContext pd) (noteSpendingInfoDaos pd)
               (userPertainingTxIndices pd) 0 = Inr ts"
  shows "list_all2 (storedTxFor env sk cv address ctx bl) ts (pertaining env sk cv bl)"
proof -
  from processBlock_value [OF pb key curve]
  have ctx: "blockContext pd = ctx"
    and per: "userPertainingTxIndices pd =
      addAll [] (map (fst \<circ> snd) (hits env sk cv 0 (nestedOrder 0 (txLogs bl))))"
    by simp_all
  have per': "userPertainingTxIndices pd = pertaining env sk cv bl"
    unfolding per pertaining_def hits_txIndices ..
  from blockTxDaos_value [OF ts]
  have "list_all2 (\<lambda>t txIndex. \<exists>m. txDaoOf address ctx (noteSpendingInfoDaos pd) txIndex m = Inr t)
      ts (pertaining env sk cv bl)"
    unfolding ctx per' .
  then show ?thesis
  proof (rule list.rel_mono_strong)
    fix t txIndex
    assume "txIndex \<in> set (pertaining env sk cv bl)"
    then have "ownsNote env sk cv bl txIndex" by (simp add: set_pertaining)
    moreover assume "\<exists>m. txDaoOf address ctx (noteSpendingInfoDaos pd) txIndex m = Inr t"
    ultimately show "storedTxFor env sk cv address ctx bl t txIndex"
      by (auto intro: txDaoOf_stored)
  qed
qed

section \<open>Evaluation in the concrete scenario\<close>

lemmas demo_defs =
  demoEnv_def block7_def logs7_def block8_def logs8_def block9_def logs9_def np0_def
  memoryDB_def rejectingTxs_def

lemmas proc_defs =
  process_def processBlock_def computeSiloedNullifier_def setAdd_def
  processBlocksAndNoteSpendingInfo_def txDaoOf_def getTxHash_def getTx_def getBlockHash_def
  insertNew_def outcomeOf_def

lemma demo_processBlock7: "fst (processBlock demoEnv 1 block7 logs7 []) = Inr processed7"
  by (simp add: proc_defs demo_defs processed7_def)

lemma demo_processBlock9: "fst (processBlock demoEnv 1 block9 logs9 []) = Inr processed9"
  by (simp add: proc_defs demo_defs processed9_def)

lemma demo_rejecting_run:
  "process demoEnv rejectingTxs np0 [block7] [logs7] =
     (Inl DatabaseError,
      np0\<lparr>db := \<lparr>noteSpendingInfoTable = noteSpendingInfoDaos processed7, txTable = []\<rparr>,
          calls :=
            [(GetAccountPrivateKey 1, Returned), (GrumpkinNew, Returned),
             (FromEncryptedBuffer [11, 5, 1, 40], Returned),
             (ComputeNullifier 5 1 [40], Returned), (SiloNullifier 5 41, Returned),
             (FromEncryptedBuffer [12, 5, 1, 41], Returned),
             (FromEncryptedBuffer [11, 5, 2, 42], Returned),
             (ComputeNullifier 5 2 [42], Returned), (SiloNullifier 5 44, Returned),
             (AddNoteSpendingInfoBatch (noteSpendingInfoDaos processed7), Returned),
             (AddTxs [\<lparr>txHash = 70, blockHash = [7], blockNumber = 7, origin = 9,
                       txContractAddress = None, error = []\<rparr>], Threw DatabaseError)]\<rparr>)"
  by (simp add: proc_defs demo_defs processed7_def)

lemma demo_accumulated7:
  "accumulated demoEnv np0 [block7] [logs7] =
     Some (noteSpendingInfoDaos processed7,
           [\<lparr>txHash = 70, blockHash = [7], blockNumber = 7, origin = 9,
             txContractAddress = None, error = []\<rparr>],
           [])"
  by (simp add: accumulated_def proc_defs demo_defs processed7_def)

lemma demo_run7_persistence:
  "fst (process demoEnv memoryDB np0 [block7] [logs7]) = Inr () \<and>
   persistenceCalls np0 (snd (process demoEnv memoryDB np0 [block7] [logs7])) =
     [(AddNoteSpendingInfoBatch (noteSpendingInfoDaos processed7), Returned),
      (AddTxs [\<lparr>txHash = 70, blockHash = [7], blockNumber = 7, origin = 9,
                txContractAddress = None, error = []\<rparr>], Returned),
      (RemoveNullifiedNoteSpendingInfo [] 1, Returned)]"
  by (simp add: proc_defs demo_defs processed7_def persistenceCalls_def newCalls_def
      isPersistence_def)

lemma demo_processBlocks78:
  "fst (processBlocks demoEnv 1 (zip [block7, block8] [logs7, logs8]) []) =
     Inr [processed7, processed8]"
  by (simp add: proc_defs demo_defs processed7_def processed8_def)

lemma demo_run78:
  "fst (process demoEnv memoryDB np0 [block7, block8] [logs7, logs8]) = Inr () \<and>
   noteSpendingInfoTable (db (snd (process demoEnv memoryDB np0 [block7, block8] [logs7, logs8]))) =
     [\<lparr>contractAddress = 5, storageSlot = 2, notePreimage = [42],
       nullifier = 5044, index = 102, publicKey = 1\<rparr>]"
  by (simp add: proc_defs demo_defs)

lemma demo_accumulated9:
  "accumulated demoEnv np0 [block9] [logs9] = Some (noteSpendingInfoDaos processed9, [tx90, tx91], [])"
  by (simp add: accumulated_def proc_defs demo_defs processed9_def tx90_def tx91_def)

lemma demo_pertaining9: "pertaining demoEnv 11 0 logs9 = [0, 1]"
  by (simp add: pertaining_def nestedOrder_def logs9_def demoEnv_def addAll_def setAdd_def)

section \<open>Input checks of process\<close>

text \<open>
  C9. For the empty batch, \<^verbatim>\<open>process\<close> returns successfully and leaves the processor as
  it was: the watermark, the store and the record of calls are unchanged, so no
  persistence call and no call to the key store or to a cryptographic collaborator was
  made.
\<close>

theorem process_empty_batch_is_noop:
  "process env dbi np [] [] = (Inr (), np)"
  by (simp add: process_def)

text \<open>
  C7. When the number of block contexts differs from the number of encrypted-log
  collections, \<^verbatim>\<open>process\<close> throws the length-mismatch error and leaves the processor
  as it was: no decryption was attempted, no collaborator was called, no persistence
  call was issued and the watermark is unchanged.
\<close>

theorem process_length_mismatch:
  "length l2BlockContexts \<noteq> length encryptedL2BlockLogs \<Longrightarrow>
   process env dbi np l2BlockContexts encryptedL2BlockLogs =
     (Inl (LengthMismatch (length l2BlockContexts) (length encryptedL2BlockLogs)), np)"
  by (simp add: process_def)

theorem process_length_mismatch_witness:
  "length [block7] \<noteq> length ([] :: L2BlockL2Logs list) \<and>
   process demoEnv memoryDB np0 [block7] [] = (Inl (LengthMismatch 1 0), np0)"
  using process_length_mismatch [of "[block7]" "[]" demoEnv memoryDB np0] by simp

section \<open>The watermark\<close>

lemma processBlocksAndNoteSpendingInfo_frame:
  "processBlocksAndNoteSpendingInfo dbi np pds = (r, np') \<Longrightarrow>
   syncedToBlock np' = syncedToBlock np \<and> npPublicKey np' = npPublicKey np \<and>
   npAddress np' = npAddress np"
  by (auto simp: processBlocksAndNoteSpendingInfo_def split: sum.splits prod.splits if_splits)

lemma process_success_watermark:
  assumes "process env dbi np bs ls = (Inr u, np')" and "bs \<noteq> []"
  shows "syncedToBlock np' = number (block (last bs))"
  using assms
  by (auto simp: process_def split: if_splits prod.splits sum.splits)

lemma process_failure_watermark:
  assumes "process env dbi np bs ls = (Inl e, np')"
  shows "syncedToBlock np' = syncedToBlock np"
  using assms
  by (auto simp: process_def split: if_splits prod.splits sum.splits
      dest: processBlocksAndNoteSpendingInfo_frame)

text \<open>
  C10. \<^verbatim>\<open>isSynchronised\<close> answers true exactly when the watermark equals the block
  height the node has just returned; when the watermark is above that height it answers
  false. It does not change the watermark.
\<close>

theorem isSynchronised_iff_equal:
  "getBlockHeight env = Inr remoteBlockHeight \<Longrightarrow>
   fst (isSynchronised env np) = Inr (syncedToBlock np = remoteBlockHeight) \<and>
   (remoteBlockHeight < syncedToBlock np \<longrightarrow> fst (isSynchronised env np) = Inr False) \<and>
   syncedToBlock (snd (isSynchronised env np)) = syncedToBlock np"
  by (auto simp: isSynchronised_def)

theorem isSynchronised_iff_equal_witness:
  "getBlockHeight demoEnv = Inr 5 \<and>
   fst (isSynchronised demoEnv (np0\<lparr>syncedToBlock := 8\<rparr>)) = Inr False \<and>
   fst (isSynchronised demoEnv (np0\<lparr>syncedToBlock := 5\<rparr>)) = Inr True"
  using isSynchronised_iff_equal [of demoEnv 5 "np0\<lparr>syncedToBlock := 8\<rparr>"]
    isSynchronised_iff_equal [of demoEnv 5 "np0\<lparr>syncedToBlock := 5\<rparr>"]
  by (simp add: demoEnv_def np0_def)

text \<open>
  C4, as stated, fails: \<^verbatim>\<open>process\<close> assigns the number of the last block of the batch
  to the watermark, whatever the watermark was. With the watermark at 8, processing the
  batch that holds block 7 alone succeeds and leaves the watermark at 7, not at the
  maximum 8.
\<close>

theorem process_watermark_max_counterexample:
  "fst (process demoEnv memoryDB (np0\<lparr>syncedToBlock := 8\<rparr>) [block7] [logs7]) = Inr () \<and>
   syncedToBlock (snd (process demoEnv memoryDB (np0\<lparr>syncedToBlock := 8\<rparr>) [block7] [logs7])) = 7 \<and>
   max (syncedToBlock (np0\<lparr>syncedToBlock := 8\<rparr>)) (number (block (last [block7]))) = 8"
  by (simp add: proc_defs demo_defs)

text \<open>
  C4, amended. For every non-empty batch on which \<^verbatim>\<open>process\<close> succeeds, the new
  watermark is the number of the last block of the batch; when that number is not below
  the old watermark, this is the maximum of the two and the watermark has not decreased.
\<close>

theorem process_watermark_is_last_block:
  assumes "process env dbi np l2BlockContexts encryptedL2BlockLogs = (Inr (), np')"
    and "l2BlockContexts \<noteq> []"
  shows "syncedToBlock np' = number (block (last l2BlockContexts)) \<and>
         (syncedToBlock np \<le> number (block (last l2BlockContexts)) \<longrightarrow>
            syncedToBlock np' = max (syncedToBlock np) (number (block (last l2BlockContexts))) \<and>
            syncedToBlock np \<le> syncedToBlock np')"
  using process_success_watermark [OF assms] by simp

theorem process_watermark_is_last_block_witness:
  "syncedToBlock (snd (process demoEnv memoryDB np0 [block7, block8] [logs7, logs8])) = 8 \<and>
   fst (process demoEnv memoryDB np0 [block7, block8] [logs7, logs8]) = Inr () \<and>
   syncedToBlock np0 \<le> number (block (last [block7, block8]))"
proof -
  have f: "fst (process demoEnv memoryDB np0 [block7, block8] [logs7, logs8]) = Inr ()"
    by (simp add: proc_defs demo_defs)
  then have run: "process demoEnv memoryDB np0 [block7, block8] [logs7, logs8] =
      (Inr (), snd (process demoEnv memoryDB np0 [block7, block8] [logs7, logs8]))"
    by (metis prod.collapse)
  have ne: "[block7, block8] \<noteq> []" by simp
  have n8: "number (block (last [block7, block8])) = 8" by (simp add: block8_def)
  have s0: "syncedToBlock np0 = 0" by (simp add: np0_def)
  from process_watermark_is_last_block [OF run ne] f show ?thesis
    unfolding n8 s0 by simp
qed

section \<open>Notes and pertaining transactions of one block\<close>

text \<open>The leaf indices of the notes of one block.\<close>

lemma processBlock_leaf_indices:
  assumes "processBlock env pk ctx blockLogs tr = (Inr pd, tr')"
    and "getAccountPrivateKey env pk = Inr privateKey"
    and "grumpkinNew env = Inr curve"
  shows "map index (noteSpendingInfoDaos pd) =
           map (\<lambda>(i, k, buf). nextAvailableLeafIndex (startPrivateDataTreeSnapshot (block ctx)) + i)
             (filter (\<lambda>(i, k, buf). fromEncryptedBuffer env buf privateKey curve \<noteq> None)
                (enumerate 0 (nestedOrder 0 (txLogs blockLogs))))"
proof -
  let ?start = "nextAvailableLeafIndex (startPrivateDataTreeSnapshot (block ctx))"
  let ?H = "hits env privateKey curve 0 (nestedOrder 0 (txLogs blockLogs))"
  from processBlock_value [OF assms]
  have "list_all2 (noteOf env pk ?start) (noteSpendingInfoDaos pd) ?H" by simp
  then have "map index (noteSpendingInfoDaos pd) = map (\<lambda>h. ?start + fst h) ?H"
    by (rule notes_indices)
  also have "\<dots> = map ((+) ?start) (map fst ?H)" by simp
  also have "\<dots> = map ((+) ?start)
      (map fst (filter (\<lambda>(i, k, buf). fromEncryptedBuffer env buf privateKey curve \<noteq> None)
         (enumerate 0 (nestedOrder 0 (txLogs blockLogs)))))"
    by (simp only: hits_positions)
  finally show ?thesis by (simp add: case_prod_unfold comp_def)
qed

text \<open>
  C2. For every block of a batch, the leaf indices of the notes are, in order, the start
  index of the block plus the positions of the buffers that decrypt, where the position
  counts every raw buffer of the block (decrypting or not) from 0 in the order of the
  nested loops: transactions, then function-log groups, then buffers. The count runs
  over the whole block and is not reset per transaction.
\<close>

theorem leaf_index_counts_every_buffer:
  assumes "processBlocks env pk (zip l2BlockContexts encryptedL2BlockLogs) tr = (Inr pds, tr')"
    and "getAccountPrivateKey env pk = Inr privateKey"
    and "grumpkinNew env = Inr curve"
  shows "list_all2
           (\<lambda>pd (ctx, blockLogs).
              map index (noteSpendingInfoDaos pd) =
                map (\<lambda>(i, k, buf).
                       nextAvailableLeafIndex (startPrivateDataTreeSnapshot (block ctx)) + i)
                  (filter (\<lambda>(i, k, buf). fromEncryptedBuffer env buf privateKey curve \<noteq> None)
                     (enumerate 0 (nestedOrder 0 (txLogs blockLogs)))))
           pds (zip l2BlockContexts encryptedL2BlockLogs)"
proof -
  let ?zs = "zip l2BlockContexts encryptedL2BlockLogs"
  from processBlocks_value [OF assms(1)]
  have "list_all2
      (\<lambda>pd z. \<exists>tr0 tr1. processBlock env pk (fst z) (snd z) tr0 = (Inr pd, tr1)) pds ?zs" .
  then have "list_all2
      (\<lambda>pd z.
         map index (noteSpendingInfoDaos pd) =
           map (\<lambda>(i, k, buf).
                  nextAvailableLeafIndex (startPrivateDataTreeSnapshot (block (fst z))) + i)
             (filter (\<lambda>(i, k, buf). fromEncryptedBuffer env buf privateKey curve \<noteq> None)
                (enumerate 0 (nestedOrder 0 (txLogs (snd z))))))
      pds ?zs"
  proof (rule list_all2_mono)
    fix pd z
    assume "\<exists>tr0 tr1. processBlock env pk (fst z) (snd z) tr0 = (Inr pd, tr1)"
    then obtain tr0 tr1 where "processBlock env pk (fst z) (snd z) tr0 = (Inr pd, tr1)"
      by blast
    from processBlock_leaf_indices [OF this assms(2,3)]
    show "map index (noteSpendingInfoDaos pd) =
        map (\<lambda>(i, k, buf).
               nextAvailableLeafIndex (startPrivateDataTreeSnapshot (block (fst z))) + i)
          (filter (\<lambda>(i, k, buf). fromEncryptedBuffer env buf privateKey curve \<noteq> None)
             (enumerate 0 (nestedOrder 0 (txLogs (snd z)))))" .
  qed
  then show ?thesis by (simp add: case_prod_unfold)
qed

theorem leaf_index_counts_every_buffer_witness:
  "processBlocks demoEnv 1 (zip [block7, block8] [logs7, logs8]) [] =
     (Inr [processed7, processed8],
      snd (processBlocks demoEnv 1 (zip [block7, block8] [logs7, logs8]) [])) \<and>
   getAccountPrivateKey demoEnv 1 = Inr 11 \<and> grumpkinNew demoEnv = Inr 0 \<and>
   map index (noteSpendingInfoDaos processed7) = [100, 102] \<and>
   map (\<lambda>(i, k, buf). nextAvailableLeafIndex (startPrivateDataTreeSnapshot (block block7)) + i)
     (filter (\<lambda>(i, k, buf). fromEncryptedBuffer demoEnv buf 11 0 \<noteq> None)
        (enumerate 0 (nestedOrder 0 (txLogs logs7)))) = [100, 102]"
proof -
  have run: "processBlocks demoEnv 1 (zip [block7, block8] [logs7, logs8]) [] =
      (Inr [processed7, processed8],
       snd (processBlocks demoEnv 1 (zip [block7, block8] [logs7, logs8]) []))"
    using demo_processBlocks78 by (metis prod.collapse)
  have key: "getAccountPrivateKey demoEnv 1 = Inr 11" by (simp add: demoEnv_def)
  have curve: "grumpkinNew demoEnv = Inr 0" by (simp add: demoEnv_def)
  have idx: "map index (noteSpendingInfoDaos processed7) = [100, 102]"
    by (simp add: processed7_def)
  from leaf_index_counts_every_buffer [OF run key curve]
  have "map index (noteSpendingInfoDaos processed7) =
      map (\<lambda>(i, k, buf). nextAvailableLeafIndex (startPrivateDataTreeSnapshot (block block7)) + i)
        (filter (\<lambda>(i, k, buf). fromEncryptedBuffer demoEnv buf 11 0 \<noteq> None)
           (enumerate 0 (nestedOrder 0 (txLogs logs7))))"
    by simp
  with run key curve idx show ?thesis by simp
qed

text \<open>
  C6. Of the \<open>N\<close> buffers of a block, let \<open>K\<close> decrypt. A successful scan of the block
  yields exactly \<open>K\<close> notes, which carry the decrypted payloads in decryption order,
  and a list of pertaining transaction indices without duplicates whose elements are
  exactly the transaction indices of the \<open>K\<close> buffers.
\<close>

theorem decryption_selectivity:
  assumes "processBlock env pk ctx blockLogs tr = (Inr pd, tr')"
    and "getAccountPrivateKey env pk = Inr privateKey"
    and "grumpkinNew env = Inr curve"
  shows "length (noteSpendingInfoDaos pd) =
           length (filter (\<lambda>(k, buf). fromEncryptedBuffer env buf privateKey curve \<noteq> None)
                     (nestedOrder 0 (txLogs blockLogs))) \<and>
         map (\<lambda>d. \<lparr>contractAddress = contractAddress d, storageSlot = storageSlot d,
                    notePreimage = notePreimage d\<rparr>) (noteSpendingInfoDaos pd) =
           List.map_filter (\<lambda>(k, buf). fromEncryptedBuffer env buf privateKey curve)
             (nestedOrder 0 (txLogs blockLogs)) \<and>
         distinct (userPertainingTxIndices pd) \<and>
         set (userPertainingTxIndices pd) =
           fst ` set (filter (\<lambda>(k, buf). fromEncryptedBuffer env buf privateKey curve \<noteq> None)
                        (nestedOrder 0 (txLogs blockLogs)))"
proof -
  let ?start = "nextAvailableLeafIndex (startPrivateDataTreeSnapshot (block ctx))"
  let ?flat = "nestedOrder 0 (txLogs blockLogs)"
  let ?H = "hits env privateKey curve 0 ?flat"
  let ?dec = "filter (\<lambda>(k, buf). fromEncryptedBuffer env buf privateKey curve \<noteq> None) ?flat"
  from processBlock_value [OF assms]
  have per: "userPertainingTxIndices pd = addAll [] (map (fst \<circ> snd) ?H)"
    and nts: "list_all2 (noteOf env pk ?start) (noteSpendingInfoDaos pd) ?H"
    by simp_all
  have txs: "map (fst \<circ> snd) ?H = map fst ?dec" by (rule hits_txIndices)
  have "length (noteSpendingInfoDaos pd) = length ?H"
    using nts by (rule list_all2_lengthD)
  also have "\<dots> = length (map (fst \<circ> snd) ?H)" by simp
  also have "\<dots> = length ?dec" unfolding txs by simp
  finally have k: "length (noteSpendingInfoDaos pd) = length ?dec" .
  have payload: "map (\<lambda>d. \<lparr>contractAddress = contractAddress d, storageSlot = storageSlot d,
        notePreimage = notePreimage d\<rparr>) (noteSpendingInfoDaos pd) =
      List.map_filter (\<lambda>(k, buf). fromEncryptedBuffer env buf privateKey curve) ?flat"
    using notes_payloads [OF nts] by (simp only: hits_payloads)
  have d: "distinct (userPertainingTxIndices pd)"
    unfolding per by (rule distinct_addAll) simp
  have s: "set (userPertainingTxIndices pd) = fst ` set ?dec"
    unfolding per set_addAll txs by simp
  from k payload d s show ?thesis by blast
qed

theorem decryption_selectivity_witness:
  "processBlock demoEnv 1 block9 logs9 [] =
     (Inr processed9, snd (processBlock demoEnv 1 block9 logs9 [])) \<and>
   getAccountPrivateKey demoEnv 1 = Inr 11 \<and> grumpkinNew demoEnv = Inr 0 \<and>
   length (nestedOrder 0 (txLogs logs9)) = 4 \<and>
   length (noteSpendingInfoDaos processed9) = 3 \<and>
   length (filter (\<lambda>(k, buf). fromEncryptedBuffer demoEnv buf 11 0 \<noteq> None)
             (nestedOrder 0 (txLogs logs9))) = 3 \<and>
   userPertainingTxIndices processed9 = [0, 1] \<and>
   fst ` set (filter (\<lambda>(k, buf). fromEncryptedBuffer demoEnv buf 11 0 \<noteq> None)
                (nestedOrder 0 (txLogs logs9))) = {0, 1}"
proof -
  have run: "processBlock demoEnv 1 block9 logs9 [] =
      (Inr processed9, snd (processBlock demoEnv 1 block9 logs9 []))"
    using demo_processBlock9 by (metis prod.collapse)
  have key: "getAccountPrivateKey demoEnv 1 = Inr 11" by (simp add: demoEnv_def)
  have curve: "grumpkinNew demoEnv = Inr 0" by (simp add: demoEnv_def)
  have n: "length (nestedOrder 0 (txLogs logs9)) = 4"
    by (simp add: nestedOrder_def logs9_def)
  have k: "length (noteSpendingInfoDaos processed9) = 3"
    and per: "userPertainingTxIndices processed9 = [0, 1]"
    by (simp_all add: processed9_def)
  from decryption_selectivity [OF run key curve] run key curve n k per
  show ?thesis by auto
qed

section \<open>Failures\<close>

text \<open>
  C3. Whenever a call that \<^verbatim>\<open>process\<close> made to a collaborator threw (the fetch of the
  private key, a nullifier computation, the insertion of the notes, the insertion of
  the transaction records or the removal of the nullified notes), \<^verbatim>\<open>process\<close> fails
  with the error that was thrown, and the watermark keeps the value it had before the
  call. Any failure of \<^verbatim>\<open>process\<close> leaves the watermark unchanged, and on a non-empty
  batch a failing key fetch makes \<^verbatim>\<open>process\<close> fail with the key store's error.
\<close>

theorem failure_propagates_and_keeps_watermark:
  assumes "process env dbi np l2BlockContexts encryptedL2BlockLogs = (r, np')"
  shows "(\<forall>c e. (c, Threw e) \<in> set (newCalls np np') \<longrightarrow>
            r = Inl e \<and> syncedToBlock np' = syncedToBlock np) \<and>
         (\<forall>e. r = Inl e \<longrightarrow> syncedToBlock np' = syncedToBlock np) \<and>
         (\<forall>e. l2BlockContexts \<noteq> [] \<and> length l2BlockContexts = length encryptedL2BlockLogs \<and>
              getAccountPrivateKey env (npPublicKey np) = Inl e \<longrightarrow> r = Inl e)"
proof -
  have w: "\<forall>e. r = Inl e \<longrightarrow> syncedToBlock np' = syncedToBlock np"
    using assms by (auto dest: process_failure_watermark)
  have t: "\<forall>c e. (c, Threw e) \<in> set (newCalls np np') \<longrightarrow> r = Inl e"
    using process_thrown [OF assms] by blast
  have k: "\<forall>e. l2BlockContexts \<noteq> [] \<and> length l2BlockContexts = length encryptedL2BlockLogs \<and>
      getAccountPrivateKey env (npPublicKey np) = Inl e \<longrightarrow> r = Inl e"
  proof (intro allI impI, elim conjE)
    fix e
    assume ne: "l2BlockContexts \<noteq> []"
      and len: "length l2BlockContexts = length encryptedL2BlockLogs"
      and key: "getAccountPrivateKey env (npPublicKey np) = Inl e"
    obtain r1 tr where pb: "processBlocks env (npPublicKey np)
        (zip l2BlockContexts encryptedL2BlockLogs) (calls np) = (r1, tr)"
      by (cases "processBlocks env (npPublicKey np)
        (zip l2BlockContexts encryptedL2BlockLogs) (calls np)")
    have "zip l2BlockContexts encryptedL2BlockLogs \<noteq> []"
      using ne len by (cases l2BlockContexts; cases encryptedL2BlockLogs) auto
    from processBlocks_key_fails [OF this key, of "calls np"] pb have "r1 = Inl e" by simp
    with process_unfold [OF ne len pb, of dbi] assms show "r = Inl e" by simp
  qed
  from w t k show ?thesis by blast
qed

theorem failure_propagates_and_keeps_watermark_witness:
  "fst (process demoEnv rejectingTxs np0 [block7] [logs7]) = Inl DatabaseError \<and>
   (AddTxs [\<lparr>txHash = 70, blockHash = [7], blockNumber = 7, origin = 9,
             txContractAddress = None, error = []\<rparr>], Threw DatabaseError)
     \<in> set (newCalls np0 (snd (process demoEnv rejectingTxs np0 [block7] [logs7]))) \<and>
   noteSpendingInfoTable (db (snd (process demoEnv rejectingTxs np0 [block7] [logs7]))) =
     noteSpendingInfoDaos processed7 \<and>
   syncedToBlock (snd (process demoEnv rejectingTxs np0 [block7] [logs7])) = syncedToBlock np0"
proof -
  have run: "process demoEnv rejectingTxs np0 [block7] [logs7] =
      (fst (process demoEnv rejectingTxs np0 [block7] [logs7]),
       snd (process demoEnv rejectingTxs np0 [block7] [logs7]))"
    by simp
  have thrown: "(AddTxs [\<lparr>txHash = 70, blockHash = [7], blockNumber = 7, origin = 9,
             txContractAddress = None, error = []\<rparr>], Threw DatabaseError)
     \<in> set (newCalls np0 (snd (process demoEnv rejectingTxs np0 [block7] [logs7])))"
    unfolding demo_rejecting_run by (simp add: newCalls_def np0_def)
  have table: "noteSpendingInfoTable (db (snd (process demoEnv rejectingTxs np0 [block7] [logs7]))) =
     noteSpendingInfoDaos processed7"
    unfolding demo_rejecting_run by simp
  from failure_propagates_and_keeps_watermark [OF run] thrown table
  show ?thesis by blast
qed

section \<open>The order of the persistence calls\<close>

text \<open>
  C8, as stated, fails: the two insertions stand under a guard on the length of their
  batch. The batch that holds block 8 alone is processed successfully; none of its logs
  decrypts, so no note and no transaction record is accumulated, and the removal of the
  nullified notes is the only persistence call that is issued.
\<close>

theorem three_persistence_calls_counterexample:
  "fst (process demoEnv memoryDB np0 [block8] [logs8]) = Inr () \<and>
   persistenceCalls np0 (snd (process demoEnv memoryDB np0 [block8] [logs8])) =
     [(RemoveNullifiedNoteSpendingInfo [5041] 1, Returned)]"
  by (simp add: proc_defs demo_defs persistenceCalls_def newCalls_def isPersistence_def)

text \<open>
  C8, amended. Within every processed non-empty batch the persistence calls are issued
  in the order: insertion of the accumulated notes (issued only when there is at least
  one), insertion of the accumulated transaction records (issued only when there is at
  least one), removal of the nullified notes for the processor's public key. What was
  issued is an initial part of this sequence, every call before the last one returned
  before the next was issued, and on success the whole sequence was issued and every
  call returned. When the decryption loop or the accumulation fails, no persistence
  call is issued.
\<close>

theorem persistence_calls_in_statement_order:
  assumes run: "process env dbi np l2BlockContexts encryptedL2BlockLogs = (r, np')"
    and ne: "l2BlockContexts \<noteq> []"
    and len: "length l2BlockContexts = length encryptedL2BlockLogs"
  shows "(accumulated env np l2BlockContexts encryptedL2BlockLogs = None \<longrightarrow>
            persistenceCalls np np' = []) \<and>
         (\<forall>batch txDaos nulls.
            accumulated env np l2BlockContexts encryptedL2BlockLogs = Some (batch, txDaos, nulls) \<longrightarrow>
              (\<exists>rest. issued batch txDaos nulls (npPublicKey np) =
                 map fst (persistenceCalls np np') @ rest) \<and>
              (\<forall>x\<in>set (butlast (persistenceCalls np np')). snd x = Returned) \<and>
              (r = Inr () \<longrightarrow>
                 persistenceCalls np np' =
                   map (\<lambda>c. (c, Returned)) (issued batch txDaos nulls (npPublicKey np))))"
proof (intro conjI allI impI)
  assume "accumulated env np l2BlockContexts encryptedL2BlockLogs = None"
  with run show "persistenceCalls np np' = []" by (rule process_persistence_none)
next
  fix batch txDaos nulls
  assume some: "accumulated env np l2BlockContexts encryptedL2BlockLogs = Some (batch, txDaos, nulls)"
  note p = process_persistence_some [OF run ne len some]
  from p show "\<exists>rest. issued batch txDaos nulls (npPublicKey np) =
      map fst (persistenceCalls np np') @ rest" by (rule conjunct1)
  from p show "\<forall>x\<in>set (butlast (persistenceCalls np np')). snd x = Returned"
    by (elim conjE)
  assume "r = Inr ()"
  then have "errOf r = None" by simp
  with p show "persistenceCalls np np' =
      map (\<lambda>c. (c, Returned)) (issued batch txDaos nulls (npPublicKey np))"
    by (elim conjE) simp
qed

theorem persistence_calls_in_statement_order_witness:
  "accumulated demoEnv np0 [block7] [logs7] =
     Some (noteSpendingInfoDaos processed7,
           [\<lparr>txHash = 70, blockHash = [7], blockNumber = 7, origin = 9,
             txContractAddress = None, error = []\<rparr>],
           []) \<and>
   fst (process demoEnv memoryDB np0 [block7] [logs7]) = Inr () \<and>
   persistenceCalls np0 (snd (process demoEnv memoryDB np0 [block7] [logs7])) =
     [(AddNoteSpendingInfoBatch (noteSpendingInfoDaos processed7), Returned),
      (AddTxs [\<lparr>txHash = 70, blockHash = [7], blockNumber = 7, origin = 9,
                txContractAddress = None, error = []\<rparr>], Returned),
      (RemoveNullifiedNoteSpendingInfo [] 1, Returned)] \<and>
   map fst (persistenceCalls np0 (snd (process demoEnv memoryDB np0 [block7] [logs7]))) =
     issued (noteSpendingInfoDaos processed7)
       [\<lparr>txHash = 70, blockHash = [7], blockNumber = 7, origin = 9,
         txContractAddress = None, error = []\<rparr>] [] (npPublicKey np0)"
proof -
  have run: "process demoEnv memoryDB np0 [block7] [logs7] =
      (Inr (), snd (process demoEnv memoryDB np0 [block7] [logs7]))"
    using demo_run7_persistence by (metis prod.collapse)
  have ne: "[block7] \<noteq> []" by simp
  have len: "length [block7] = length [logs7]" by simp
  from persistence_calls_in_statement_order [OF run ne len] demo_accumulated7
  have "persistenceCalls np0 (snd (process demoEnv memoryDB np0 [block7] [logs7])) =
      map (\<lambda>c. (c, Returned))
        (issued (noteSpendingInfoDaos processed7)
           [\<lparr>txHash = 70, blockHash = [7], blockNumber = 7, origin = 9,
             txContractAddress = None, error = []\<rparr>] [] (npPublicKey np0))"
    by simp
  then have "map fst (persistenceCalls np0 (snd (process demoEnv memoryDB np0 [block7] [logs7]))) =
     issued (noteSpendingInfoDaos processed7)
       [\<lparr>txHash = 70, blockHash = [7], blockNumber = 7, origin = 9,
         txContractAddress = None, error = []\<rparr>] [] (npPublicKey np0)"
    by (simp add: comp_def)
  with demo_accumulated7 demo_run7_persistence show ?thesis by simp
qed

section \<open>Notes spent in the batch that created them\<close>

text \<open>
  C1. With the in-memory store, after a successfully processed batch no note that the
  batch created and whose nullifier stands in the new-nullifier list of a block of the
  batch is left in the store. On a non-empty batch the persistence calls of the run are
  the insertion of all the notes of the batch (when there is one), an insertion of
  transaction records (when there is one), and last the removal request with the
  new-nullifier lists of all blocks of the batch, in block order, for the processor's
  public key; every one of them returned.
\<close>

theorem same_batch_spend_is_removed:
  assumes run: "process env memoryDB np l2BlockContexts encryptedL2BlockLogs = (Inr (), np')"
    and pb: "processBlocks env (npPublicKey np) (zip l2BlockContexts encryptedL2BlockLogs)
               (calls np) = (Inr pds, tr)"
  shows "(\<forall>n\<in>set (concat (map noteSpendingInfoDaos pds)).
            nullifier n \<in> set (concat (map (\<lambda>b. newNullifiers (block b)) l2BlockContexts)) \<longrightarrow>
            n \<notin> set (noteSpendingInfoTable (db np'))) \<and>
         (l2BlockContexts \<noteq> [] \<longrightarrow>
            (\<exists>txDaos.
               persistenceCalls np np' =
                 map (\<lambda>c. (c, Returned))
                   (issued (concat (map noteSpendingInfoDaos pds)) txDaos
                      (concat (map (\<lambda>b. newNullifiers (block b)) l2BlockContexts))
                      (npPublicKey np))))"
proof (cases "l2BlockContexts = []")
  case True
  with pb have "pds = []" by simp
  with True show ?thesis by simp
next
  case ne: False
  let ?bs = l2BlockContexts and ?ls = encryptedL2BlockLogs
  let ?np1 = "np\<lparr>calls := tr\<rparr>"
  let ?allNulls = "concat (map (\<lambda>b. newNullifiers (block b)) ?bs)"
  from run have len: "length ?bs = length ?ls"
    by (auto simp: process_def split: if_splits)
  obtain r2 np2 where pp: "processBlocksAndNoteSpendingInfo memoryDB ?np1 pds = (r2, np2)"
    by (cases "processBlocksAndNoteSpendingInfo memoryDB ?np1 pds")
  have pu: "process env memoryDB np ?bs ?ls =
      (case r2 of Inl e \<Rightarrow> (Inl e, np2)
       | Inr u \<Rightarrow> (Inr (), np2\<lparr>syncedToBlock := number (block (last ?bs))\<rparr>))"
    using process_unfold [OF ne len pb, of memoryDB] pp by simp
  from pu run obtain u where r2: "r2 = Inr u" by (cases r2) simp_all
  with pu run have np': "np' = np2\<lparr>syncedToBlock := number (block (last ?bs))\<rparr>" by simp
  obtain batch txDaos nulls where
    acc: "accumulate (npAddress np) pds ([], [], []) = Inr (batch, txDaos, nulls)"
  proof (cases "accumulate (npAddress np) pds ([], [], [])")
    case (Inl e)
    then have "accumulate (npAddress ?np1) pds ([], [], []) = Inl e" by simp
    from pbansi_accumulate_fails [OF pp this] r2 show ?thesis by simp
  next
    case (Inr a)
    with that show ?thesis by (cases a) auto
  qed
  then have acc1: "accumulate (npAddress ?np1) pds ([], [], []) = Inr (batch, txDaos, nulls)"
    by simp
  from accumulate_value [OF acc]
  have batch: "batch = concat (map noteSpendingInfoDaos pds)"
    and nulls0: "nulls = concat (map (\<lambda>pd. newNullifiers (block (blockContext pd))) pds)"
    by simp_all
  from processBlocks_owner [OF pb]
  have ctxs: "map blockContext pds = map fst (zip ?bs ?ls)"
    and owner: "\<forall>d\<in>set (concat (map noteSpendingInfoDaos pds)). publicKey d = npPublicKey np"
    by simp_all
  have "map fst (zip ?bs ?ls) = ?bs" using len by (rule map_fst_zip)
  with ctxs have ctxs': "map blockContext pds = ?bs" by simp
  have "map (\<lambda>pd. newNullifiers (block (blockContext pd))) pds =
      map (\<lambda>b. newNullifiers (block b)) (map blockContext pds)"
    by (simp add: comp_def)
  with ctxs' nulls0 have nulls: "nulls = ?allNulls" by simp
  from pbansi_memory [OF pp acc1] np'
  have table: "noteSpendingInfoTable (db np') =
      filter (\<lambda>n. \<not> (publicKey n = npPublicKey np \<and> nullifier n \<in> set nulls))
        (insertNew (noteSpendingInfoTable (db np)) batch)"
    by simp
  have removed: "\<forall>n\<in>set (concat (map noteSpendingInfoDaos pds)).
      nullifier n \<in> set ?allNulls \<longrightarrow> n \<notin> set (noteSpendingInfoTable (db np'))"
    using owner unfolding table nulls by simp
  have some: "accumulated env np ?bs ?ls = Some (batch, txDaos, nulls)"
    using pb acc by (simp add: accumulated_def)
  from process_persistence_some [OF run ne len some]
  have "persistenceCalls np np' =
      map (\<lambda>c. (c, Returned)) (issued batch txDaos nulls (npPublicKey np))"
    by simp
  then have "\<exists>txDaos. persistenceCalls np np' =
      map (\<lambda>c. (c, Returned))
        (issued (concat (map noteSpendingInfoDaos pds)) txDaos ?allNulls (npPublicKey np))"
    unfolding batch nulls by (rule exI)
  with removed show ?thesis by simp
qed

theorem same_batch_spend_is_removed_witness:
  "fst (process demoEnv memoryDB np0 [block7, block8] [logs7, logs8]) = Inr () \<and>
   note40 \<in> set (concat (map noteSpendingInfoDaos [processed7, processed8])) \<and>
   nullifier note40 \<in> set (concat (map (\<lambda>b. newNullifiers (block b)) [block7, block8])) \<and>
   note40 \<notin> set (noteSpendingInfoTable
     (db (snd (process demoEnv memoryDB np0 [block7, block8] [logs7, logs8]))))"
proof -
  have run: "process demoEnv memoryDB np0 [block7, block8] [logs7, logs8] =
      (Inr (), snd (process demoEnv memoryDB np0 [block7, block8] [logs7, logs8]))"
    using demo_run78 by (metis prod.collapse)
  have pk: "npPublicKey np0 = 1" and c0: "calls np0 = []" by (simp_all add: np0_def)
  have pb: "processBlocks demoEnv (npPublicKey np0) (zip [block7, block8] [logs7, logs8])
      (calls np0) = (Inr [processed7, processed8],
        snd (processBlocks demoEnv (npPublicKey np0) (zip [block7, block8] [logs7, logs8])
          (calls np0)))"
    unfolding pk c0 using demo_processBlocks78 by (metis prod.collapse)
  have created: "note40 \<in> set (concat (map noteSpendingInfoDaos [processed7, processed8]))"
    by (simp add: processed7_def processed8_def note40_def)
  have spent: "nullifier note40 \<in>
      set (concat (map (\<lambda>b. newNullifiers (block b)) [block7, block8]))"
    by (simp add: note40_def block7_def block8_def)
  from same_batch_spend_is_removed [OF run pb] created spent demo_run78
  show ?thesis by blast
qed

section \<open>Stored transactions\<close>

text \<open>
  The transaction records that the accumulation builds for a batch: block after block,
  one record for every pertaining transaction index of the block.
\<close>

lemma accumulated_stored_txs:
  assumes some: "accumulated env np l2BlockContexts encryptedL2BlockLogs =
                   Some (batch, txDaos, nulls)"
    and key: "getAccountPrivateKey env (npPublicKey np) = Inr privateKey"
    and curve: "grumpkinNew env = Inr curve"
  shows "(\<exists>tss. txDaos = concat tss \<and>
            list_all2
              (\<lambda>ts (ctx, blockLogs).
                 list_all2 (storedTxFor env privateKey curve (npAddress np) ctx blockLogs) ts
                   (pertaining env privateKey curve blockLogs))
              tss (zip l2BlockContexts encryptedL2BlockLogs)) \<and>
         (\<forall>blockLogs. distinct (pertaining env privateKey curve blockLogs)) \<and>
         (\<forall>blockLogs txIndex.
            txIndex \<in> set (pertaining env privateKey curve blockLogs) \<longleftrightarrow>
            ownsNote env privateKey curve blockLogs txIndex)"
proof -
  let ?zs = "zip l2BlockContexts encryptedL2BlockLogs"
  let ?pk = "npPublicKey np"
  obtain r1 tr where pb: "processBlocks env ?pk ?zs (calls np) = (r1, tr)"
    by (cases "processBlocks env ?pk ?zs (calls np)")
  from some pb obtain pds where r1: "r1 = Inr pds"
    by (cases r1) (simp_all add: accumulated_def)
  from some pb r1
  have acc: "accumulate (npAddress np) pds ([], [], []) = Inr (batch, txDaos, nulls)"
    by (cases "accumulate (npAddress np) pds ([], [], [])") (simp_all add: accumulated_def)
  from accumulate_value [OF acc] obtain tss where
    tx: "txDaos = concat tss"
    and each: "list_all2 (\<lambda>ts pd. blockTxDaos (npAddress np) (blockContext pd)
        (noteSpendingInfoDaos pd) (userPertainingTxIndices pd) 0 = Inr ts) tss pds"
    by auto
  have blocks: "list_all2
      (\<lambda>pd z. \<exists>tr0 tr1. processBlock env ?pk (fst z) (snd z) tr0 = (Inr pd, tr1)) pds ?zs"
    using pb r1 by (auto intro: processBlocks_value)
  have "list_all2
      (\<lambda>ts z. list_all2 (storedTxFor env privateKey curve (npAddress np) (fst z) (snd z)) ts
                 (pertaining env privateKey curve (snd z)))
      tss ?zs"
    using _ each blocks
  proof (rule list_all2_trans)
    fix ts pd z
    assume "blockTxDaos (npAddress np) (blockContext pd) (noteSpendingInfoDaos pd)
        (userPertainingTxIndices pd) 0 = Inr ts"
      and "\<exists>tr0 tr1. processBlock env ?pk (fst z) (snd z) tr0 = (Inr pd, tr1)"
    then show "list_all2 (storedTxFor env privateKey curve (npAddress np) (fst z) (snd z)) ts
        (pertaining env privateKey curve (snd z))"
      using key curve by (auto intro: block_stored_txs)
  qed
  then have "list_all2
      (\<lambda>ts (ctx, blockLogs).
         list_all2 (storedTxFor env privateKey curve (npAddress np) ctx blockLogs) ts
           (pertaining env privateKey curve blockLogs))
      tss ?zs"
    by (simp add: case_prod_unfold)
  with tx have "\<exists>tss. txDaos = concat tss \<and>
      list_all2
        (\<lambda>ts (ctx, blockLogs).
           list_all2 (storedTxFor env privateKey curve (npAddress np) ctx blockLogs) ts
             (pertaining env privateKey curve blockLogs))
        tss ?zs"
    by blast
  then show ?thesis
    using distinct_pertaining set_pertaining by blast
qed

text \<open>
  The records that a successful run handed to the store are the accumulated ones; with
  the in-memory store they are what the run added to the table of transactions.
\<close>

lemma insertedTxs_Nil [simp]: "insertedTxs [] = []"
  by (simp add: insertedTxs_def)

lemma insertedTxs_append: "insertedTxs (xs @ ys) = insertedTxs xs @ insertedTxs ys"
  by (simp add: insertedTxs_def)

lemma insertedTxs_Cons: "insertedTxs (x # tr) = insertedTxs [x] @ insertedTxs tr"
  by (simp add: insertedTxs_def)

lemma insertedTxs_other: "\<not> isPersistence (fst x) \<Longrightarrow> insertedTxs [x] = []"
  by (cases x, cases "fst x") (simp_all add: insertedTxs_def isPersistence_def)

lemma insertedTxs_filter:
  "insertedTxs (filter (\<lambda>x. isPersistence (fst x)) tr) = insertedTxs tr"
proof (induction tr)
  case Nil
  then show ?case by simp
next
  case (Cons x tr)
  show ?case
  proof (cases "isPersistence (fst x)")
    case True
    then have "insertedTxs (filter (\<lambda>x. isPersistence (fst x)) (x # tr)) =
        insertedTxs [x] @ insertedTxs (filter (\<lambda>x. isPersistence (fst x)) tr)"
      using insertedTxs_Cons [of x "filter (\<lambda>x. isPersistence (fst x)) tr"] by simp
    with Cons.IH show ?thesis using insertedTxs_Cons [of x tr] by simp
  next
    case False
    then have "insertedTxs (filter (\<lambda>x. isPersistence (fst x)) (x # tr)) =
        insertedTxs (filter (\<lambda>x. isPersistence (fst x)) tr)"
      by simp
    with Cons.IH insertedTxs_other [OF False] show ?thesis
      using insertedTxs_Cons [of x tr] by simp
  qed
qed

lemma insertedTxs_issued:
  "insertedTxs (map (\<lambda>c. (c, Returned)) (issued batch txDaos nulls pk)) = txDaos"
  by (simp add: insertedTxs_def issued_def)

lemma process_success_accumulated:
  assumes run: "process env dbi np bs ls = (Inr u, np')" and ne: "bs \<noteq> []"
  shows "length bs = length ls \<and>
         (\<exists>batch txDaos nulls. accumulated env np bs ls = Some (batch, txDaos, nulls))"
proof -
  from run have len: "length bs = length ls"
    by (auto simp: process_def split: if_splits)
  obtain r1 tr where pb:
    "processBlocks env (npPublicKey np) (zip bs ls) (calls np) = (r1, tr)"
    by (cases "processBlocks env (npPublicKey np) (zip bs ls) (calls np)")
  have "\<exists>batch txDaos nulls. accumulated env np bs ls = Some (batch, txDaos, nulls)"
  proof (cases r1)
    case (Inl e)
    from process_run_a [OF run ne len pb [unfolded Inl]] show ?thesis by simp
  next
    case (Inr pds)
    show ?thesis
    proof (cases "accumulate (npAddress np) pds ([], [], [])")
      case accFail: (Inl e)
      from process_run_b [OF run ne len pb [unfolded Inr] accFail] show ?thesis by simp
    next
      case accOk: (Inr a)
      obtain batch txDaos nulls where a: "a = (batch, txDaos, nulls)" by (cases a)
      have "accumulated env np bs ls = Some (batch, txDaos, nulls)"
        using pb Inr accOk a by (simp add: accumulated_def)
      then show ?thesis by blast
    qed
  qed
  with len show ?thesis by simp
qed

lemma pbansi_memory_txs:
  assumes "processBlocksAndNoteSpendingInfo memoryDB np pds = (r, np')"
    and "accumulate (npAddress np) pds ([], [], []) = Inr (batch, txDaos, nulls)"
  shows "txTable (db np') = insertNew (txTable (db np)) txDaos"
  using assms
  by (cases "batch = []"; cases "txDaos = []")
    (auto simp: processBlocksAndNoteSpendingInfo_def memoryDB_def outcomeOf_def)

lemma process_memory_txTable:
  assumes run: "process env memoryDB np bs ls = (Inr (), np')"
    and ne: "bs \<noteq> []"
    and some: "accumulated env np bs ls = Some (batch, txDaos, nulls)"
  shows "txTable (db np') = insertNew (txTable (db np)) txDaos"
proof -
  from run have len: "length bs = length ls"
    by (auto simp: process_def split: if_splits)
  obtain r1 tr where pb:
    "processBlocks env (npPublicKey np) (zip bs ls) (calls np) = (r1, tr)"
    by (cases "processBlocks env (npPublicKey np) (zip bs ls) (calls np)")
  from some pb obtain pds where r1: "r1 = Inr pds"
    by (cases r1) (simp_all add: accumulated_def)
  from some pb r1
  have acc: "accumulate (npAddress np) pds ([], [], []) = Inr (batch, txDaos, nulls)"
    by (cases "accumulate (npAddress np) pds ([], [], [])") (simp_all add: accumulated_def)
  let ?np1 = "np\<lparr>calls := tr\<rparr>"
  obtain r2 np2 where pp: "processBlocksAndNoteSpendingInfo memoryDB ?np1 pds = (r2, np2)"
    by (cases "processBlocksAndNoteSpendingInfo memoryDB ?np1 pds")
  have pu: "process env memoryDB np bs ls =
      (case r2 of Inl e \<Rightarrow> (Inl e, np2)
       | Inr u \<Rightarrow> (Inr (), np2\<lparr>syncedToBlock := number (block (last bs))\<rparr>))"
    using process_unfold [OF ne len pb [unfolded r1], of memoryDB] pp by simp
  from pu run obtain u where r2: "r2 = Inr u" by (cases r2) simp_all
  with pu run have np': "np' = np2\<lparr>syncedToBlock := number (block (last bs))\<rparr>" by simp
  have acc1: "accumulate (npAddress ?np1) pds ([], [], []) = Inr (batch, txDaos, nulls)"
    using acc by simp
  from pbansi_memory_txs [OF pp acc1] np' show ?thesis by simp
qed

lemma demo_run9:
  "fst (process demoEnv memoryDB np0 [block9] [logs9]) = Inr () \<and>
   insertedTxs (newCalls np0 (snd (process demoEnv memoryDB np0 [block9] [logs9]))) =
     [tx90, tx91] \<and>
   txTable (db (snd (process demoEnv memoryDB np0 [block9] [logs9]))) = [tx90, tx91]"
  by (simp add: proc_defs demo_defs tx90_def tx91_def insertedTxs_def newCalls_def)

text \<open>
  C5. In a successful run of \<^verbatim>\<open>process\<close>, the transaction records that it hands to the
  store (the argument of its insertion of transaction records; none when there is no
  record) are, block after block, exactly one record for every pertaining transaction
  index of the block, in the order of these indices, which are without duplicates. The
  origin of each record is the processor's address, and its contract address is set
  exactly when the first contract-deployment entry of its transaction is non-zero and
  the processor owns a note of that same transaction; otherwise it is unset. With the
  in-memory store, these records are what the run adds to the stored transactions.
\<close>

theorem one_stored_tx_per_pertaining_tx:
  assumes run: "process env dbi np l2BlockContexts encryptedL2BlockLogs = (Inr (), np')"
    and key: "getAccountPrivateKey env (npPublicKey np) = Inr privateKey"
    and curve: "grumpkinNew env = Inr curve"
  shows "(\<exists>tss. insertedTxs (newCalls np np') = concat tss \<and>
            list_all2
              (\<lambda>ts (ctx, blockLogs).
                 list_all2 (storedTxFor env privateKey curve (npAddress np) ctx blockLogs) ts
                   (pertaining env privateKey curve blockLogs))
              tss (zip l2BlockContexts encryptedL2BlockLogs)) \<and>
         (dbi = memoryDB \<longrightarrow>
            set (txTable (db np')) =
              set (txTable (db np)) \<union> set (insertedTxs (newCalls np np'))) \<and>
         (\<forall>blockLogs. distinct (pertaining env privateKey curve blockLogs)) \<and>
         (\<forall>blockLogs txIndex.
            txIndex \<in> set (pertaining env privateKey curve blockLogs) \<longleftrightarrow>
            ownsNote env privateKey curve blockLogs txIndex)"
proof -
  let ?bs = l2BlockContexts and ?ls = encryptedL2BlockLogs
  let ?P = "\<lambda>ts (ctx, blockLogs).
      list_all2 (storedTxFor env privateKey curve (npAddress np) ctx blockLogs) ts
        (pertaining env privateKey curve blockLogs)"
  have main: "(\<exists>tss. insertedTxs (newCalls np np') = concat tss \<and>
        list_all2 ?P tss (zip ?bs ?ls)) \<and>
      (dbi = memoryDB \<longrightarrow>
         set (txTable (db np')) =
           set (txTable (db np)) \<union> set (insertedTxs (newCalls np np')))"
  proof (cases "?bs = []")
    case True
    with run have "np' = np" by (auto simp: process_def split: if_splits)
    then have "insertedTxs (newCalls np np') = concat [] \<and> list_all2 ?P [] (zip ?bs ?ls)"
      using True by simp
    then have "\<exists>tss. insertedTxs (newCalls np np') = concat tss \<and>
        list_all2 ?P tss (zip ?bs ?ls)" by (rule exI)
    with \<open>np' = np\<close> show ?thesis by simp
  next
    case ne: False
    from process_success_accumulated [OF run ne] obtain batch txDaos nulls where
      len: "length ?bs = length ?ls"
      and some: "accumulated env np ?bs ?ls = Some (batch, txDaos, nulls)"
      by blast
    from process_persistence_some [OF run ne len some]
    have pc: "persistenceCalls np np' =
        map (\<lambda>c. (c, Returned)) (issued batch txDaos nulls (npPublicKey np))"
      by simp
    have "insertedTxs (newCalls np np') = insertedTxs (persistenceCalls np np')"
      unfolding persistenceCalls_def by (rule insertedTxs_filter [symmetric])
    also have "\<dots> = txDaos" unfolding pc by (rule insertedTxs_issued)
    finally have ins: "insertedTxs (newCalls np np') = txDaos" .
    from accumulated_stored_txs [OF some key curve]
    have "\<exists>tss. txDaos = concat tss \<and> list_all2 ?P tss (zip ?bs ?ls)"
      by (rule conjunct1)
    then have first: "\<exists>tss. insertedTxs (newCalls np np') = concat tss \<and>
        list_all2 ?P tss (zip ?bs ?ls)"
      unfolding ins .
    have "dbi = memoryDB \<longrightarrow>
        set (txTable (db np')) = set (txTable (db np)) \<union> set (insertedTxs (newCalls np np'))"
    proof
      assume m: "dbi = memoryDB"
      from process_memory_txTable [OF run [unfolded m] ne some]
      show "set (txTable (db np')) =
          set (txTable (db np)) \<union> set (insertedTxs (newCalls np np'))"
        unfolding ins by (simp add: set_insertNew)
    qed
    with first show ?thesis by (rule conjI)
  qed
  have d: "\<forall>blockLogs. distinct (pertaining env privateKey curve blockLogs)"
    by (simp add: distinct_pertaining)
  have o: "\<forall>blockLogs txIndex.
      txIndex \<in> set (pertaining env privateKey curve blockLogs) \<longleftrightarrow>
      ownsNote env privateKey curve blockLogs txIndex"
    by (simp add: set_pertaining)
  from main d o show ?thesis by (intro conjI) (elim conjE, assumption)+
qed

theorem one_stored_tx_per_pertaining_tx_witness:
  "fst (process demoEnv memoryDB np0 [block9] [logs9]) = Inr () \<and>
   insertedTxs (newCalls np0 (snd (process demoEnv memoryDB np0 [block9] [logs9]))) =
     [tx90, tx91] \<and>
   txTable (db (snd (process demoEnv memoryDB np0 [block9] [logs9]))) = [tx90, tx91] \<and>
   pertaining demoEnv 11 0 logs9 = [0, 1] \<and>
   storedTxFor demoEnv 11 0 (npAddress np0) block9 logs9 tx90 0 \<and>
   storedTxFor demoEnv 11 0 (npAddress np0) block9 logs9 tx91 1 \<and>
   txContractAddress tx91 = Some 6"
proof -
  have run: "process demoEnv memoryDB np0 [block9] [logs9] =
      (Inr (), snd (process demoEnv memoryDB np0 [block9] [logs9]))"
    using demo_run9 by (metis prod.collapse)
  have key: "getAccountPrivateKey demoEnv (npPublicKey np0) = Inr 11"
    by (simp add: demoEnv_def np0_def)
  have curve: "grumpkinNew demoEnv = Inr 0" by (simp add: demoEnv_def)
  have ins: "insertedTxs (newCalls np0 (snd (process demoEnv memoryDB np0 [block9] [logs9]))) =
      [tx90, tx91]"
    using demo_run9 by (rule conjunct2 [THEN conjunct1])
  from one_stored_tx_per_pertaining_tx [OF run key curve]
  have "\<exists>tss. insertedTxs (newCalls np0 (snd (process demoEnv memoryDB np0 [block9] [logs9]))) =
        concat tss \<and>
      list_all2
        (\<lambda>ts (ctx, blockLogs).
           list_all2 (storedTxFor demoEnv 11 0 (npAddress np0) ctx blockLogs) ts
             (pertaining demoEnv 11 0 blockLogs))
        tss (zip [block9] [logs9])"
    by (rule conjunct1)
  then obtain tss where
    tx: "[tx90, tx91] = concat tss"
    and each: "list_all2
        (\<lambda>ts (ctx, blockLogs).
           list_all2 (storedTxFor demoEnv 11 0 (npAddress np0) ctx blockLogs) ts
             (pertaining demoEnv 11 0 blockLogs))
        tss (zip [block9] [logs9])"
    unfolding ins by blast
  from each obtain ts where tss: "tss = [ts]"
    and st: "list_all2 (storedTxFor demoEnv 11 0 (npAddress np0) block9 logs9) ts [0, 1]"
    by (auto simp: list_all2_Cons2 demo_pertaining9)
  from tx tss have "ts = [tx90, tx91]" by simp
  with st have "storedTxFor demoEnv 11 0 (npAddress np0) block9 logs9 tx90 0 \<and>
      storedTxFor demoEnv 11 0 (npAddress np0) block9 logs9 tx91 1"
    by simp
  with demo_run9 demo_pertaining9 show ?thesis by (simp add: tx91_def)
qed

end
